theory Spec2Isabelle
  imports Main "HOL-Library.List_Lexorder" "HOL-Library.Char_ord"
begin

section \<open>Platform primitives behind the cursor token\<close>

text \<open>
  The order repository builds its search cursor as
  \<^verbatim>\<open>Buffer.from(JSON.stringify([created_at.toISOString(), id])).toString("base64")\<close>
  and reads it back with
  \<^verbatim>\<open>JSON.parse(Buffer.from(cursor, "base64").toString("utf-8"))\<close>.
  A JavaScript string is modelled by the bytes of its UTF-8 encoding (\<open>string\<close>), so the
  conversions between a string and a buffer are the identity; a \<open>Date\<close> is its time value in
  milliseconds since the epoch (\<open>int\<close>), with \<open>None\<close> for an Invalid Date.
\<close>

subsection \<open>Base64\<close>

definition base64_char :: "nat \<Rightarrow> char" where
  "base64_char n =
     char_of (if n < 26 then 65 + n
              else if n < 52 then 71 + n
              else if n < 62 then n - 4
              else if n = 62 then 43 else (47::nat))"

text \<open>The decoder accepts the standard and the URL-safe alphabet, as Node's does.\<close>

definition unbase64 :: "char \<Rightarrow> nat option" where
  "unbase64 c =
     (let n = (of_char c :: nat) in
      if 65 \<le> n \<and> n \<le> 90 then Some (n - 65)
      else if 97 \<le> n \<and> n \<le> 122 then Some (n - 71)
      else if 48 \<le> n \<and> n \<le> 57 then Some (n + 4)
      else if n = 43 \<or> n = 45 then Some 62
      else if n = 47 \<or> n = 95 then Some 63
      else None)"

fun sextets_of :: "nat list \<Rightarrow> nat list" where
  "sextets_of (a # b # c # bs) =
     [a div 4, (a mod 4) * 16 + b div 16, (b mod 16) * 4 + c div 64, c mod 64] @ sextets_of bs"
| "sextets_of [a, b] = [a div 4, (a mod 4) * 16 + b div 16, (b mod 16) * 4]"
| "sextets_of [a] = [a div 4, (a mod 4) * 16]"
| "sextets_of [] = []"

fun base64_padding :: "nat \<Rightarrow> string" where
  "base64_padding n = (if n mod 3 = 1 then ''=='' else if n mod 3 = 2 then ''='' else [])"

definition base64_encode :: "string \<Rightarrow> string" where
  "base64_encode bytes =
     map base64_char (sextets_of (map of_char bytes)) @ base64_padding (length bytes)"

fun bytes_of_sextets :: "nat list \<Rightarrow> nat list" where
  "bytes_of_sextets (w # x # y # z # ss) =
     [(w * 4 + x div 16) mod 256, ((x mod 16) * 16 + y div 4) mod 256,
      ((y mod 4) * 64 + z) mod 256] @ bytes_of_sextets ss"
| "bytes_of_sextets [w, x, y] =
     [(w * 4 + x div 16) mod 256, ((x mod 16) * 16 + y div 4) mod 256]"
| "bytes_of_sextets [w, x] = [(w * 4 + x div 16) mod 256]"
| "bytes_of_sextets [w] = []"
| "bytes_of_sextets [] = []"

text \<open>
  \<^verbatim>\<open>Buffer.from(s, "base64")\<close> never throws: decoding stops at the first \<open>=\<close> and characters
  outside the alphabet are skipped.
\<close>

definition base64_decode :: "string \<Rightarrow> string" where
  "base64_decode s =
     map char_of (bytes_of_sextets (List.map_filter unbase64 (takeWhile (\<lambda>c. c \<noteq> CHR ''='') s)))"

subsection \<open>JSON text\<close>

datatype json =
    JNull
  | JBool bool
  | JNumber int int
  | JString string
  | JArray "json list"
  | JObject "(string \<times> json) list"

text \<open>
  \<open>JNumber m e\<close> is the decimal number \<open>m \<times> 10\<^sup>e\<close>, kept exactly (JavaScript rounds it
  to the nearest double).
\<close>

definition hex_digit :: "nat \<Rightarrow> char" where
  "hex_digit n = char_of (if n < 10 then 48 + n else 87 + n)"

definition quote_char :: "char \<Rightarrow> string" where
  "quote_char c =
     (let n = (of_char c :: nat) in
      if n = 34 then [CHR 0x5C, CHR 0x22]
      else if n = 92 then [CHR 0x5C, CHR 0x5C]
      else if n = 8 then [CHR 0x5C, CHR ''b'']
      else if n = 12 then [CHR 0x5C, CHR ''f'']
      else if n = 10 then [CHR 0x5C, CHR ''n'']
      else if n = 13 then [CHR 0x5C, CHR ''r'']
      else if n = 9 then [CHR 0x5C, CHR ''t'']
      else if n < 32 then
        [CHR 0x5C, CHR ''u'', CHR ''0'', CHR ''0'', hex_digit (n div 16), hex_digit (n mod 16)]
      else [c])"

definition JSON_quote :: "string \<Rightarrow> string" where
  "JSON_quote s = CHR 0x22 # concat (map quote_char s) @ [CHR 0x22]"

text \<open>\<^verbatim>\<open>JSON.stringify([a, b])\<close> for two strings.\<close>

definition JSON_stringify_pair :: "string \<Rightarrow> string \<Rightarrow> string" where
  "JSON_stringify_pair a b = ''['' @ JSON_quote a @ '','' @ JSON_quote b @ '']''"

definition is_ws :: "char \<Rightarrow> bool" where
  "is_ws c = (c = CHR 0x20 \<or> c = CHR 0x09 \<or> c = CHR 0x0A \<or> c = CHR 0x0D)"

definition skip_ws :: "string \<Rightarrow> string" where
  "skip_ws s = dropWhile is_ws s"

definition is_digit :: "char \<Rightarrow> bool" where
  "is_digit c = (48 \<le> (of_char c :: nat) \<and> (of_char c :: nat) \<le> 57)"

definition digit_val :: "char \<Rightarrow> nat" where
  "digit_val c = of_char c - 48"

definition nat_of_digits :: "string \<Rightarrow> nat" where
  "nat_of_digits ds = foldl (\<lambda>n c. 10 * n + digit_val c) 0 ds"

definition hex_val :: "char \<Rightarrow> nat option" where
  "hex_val c =
     (let n = (of_char c :: nat) in
      if 48 \<le> n \<and> n \<le> 57 then Some (n - 48)
      else if 97 \<le> n \<and> n \<le> 102 then Some (n - 87)
      else if 65 \<le> n \<and> n \<le> 70 then Some (n - 55)
      else None)"

text \<open>The UTF-8 bytes of one UTF-16 code unit written as \<^verbatim>\<open>\uXXXX\<close>.\<close>

definition utf8_of_code_unit :: "nat \<Rightarrow> string" where
  "utf8_of_code_unit n =
     (if n < 128 then [char_of n]
      else if n < 2048 then [char_of (192 + n div 64), char_of (128 + n mod 64)]
      else [char_of (224 + n div 4096), char_of (128 + n div 64 mod 64), char_of (128 + n mod 64)])"

definition unescape :: "char \<Rightarrow> char option" where
  "unescape e =
     (if e = CHR 0x22 then Some (CHR 0x22)
      else if e = CHR 0x5C then Some (CHR 0x5C)
      else if e = CHR ''/'' then Some (CHR ''/'')
      else if e = CHR ''b'' then Some (CHR 0x08)
      else if e = CHR ''f'' then Some (CHR 0x0C)
      else if e = CHR ''n'' then Some (CHR 0x0A)
      else if e = CHR ''r'' then Some (CHR 0x0D)
      else if e = CHR ''t'' then Some (CHR 0x09)
      else None)"

definition code_unit_of_hex :: "char \<Rightarrow> char \<Rightarrow> char \<Rightarrow> char \<Rightarrow> nat option" where
  "code_unit_of_hex h1 h2 h3 h4 =
     (case (hex_val h1, hex_val h2, hex_val h3, hex_val h4) of
        (Some a, Some b, Some c, Some d) \<Rightarrow> Some (((a * 16 + b) * 16 + c) * 16 + d)
      | _ \<Rightarrow> None)"

text \<open>The characters of a string literal after its opening quote, and the rest of the text.\<close>

fun parse_string_body :: "string \<Rightarrow> (string \<times> string) option" where
  "parse_string_body [] = None"
| "parse_string_body (c # cs) =
     (if c = CHR 0x22 then Some ([], cs)
      else if c = CHR 0x5C then
        (case cs of
           [] \<Rightarrow> None
         | e # r \<Rightarrow>
             if e = CHR ''u'' then
               (case r of
                  h1 # h2 # h3 # h4 # r' \<Rightarrow>
                    (case code_unit_of_hex h1 h2 h3 h4 of
                       None \<Rightarrow> None
                     | Some u \<Rightarrow>
                         map_option (\<lambda>(x, t). (utf8_of_code_unit u @ x, t)) (parse_string_body r'))
                | _ \<Rightarrow> None)
             else
               (case unescape e of
                  None \<Rightarrow> None
                | Some x \<Rightarrow> map_option (\<lambda>(y, t). (x # y, t)) (parse_string_body r)))
      else if (of_char c :: nat) < 32 then None
      else map_option (\<lambda>(x, t). (c # x, t)) (parse_string_body cs))"

text \<open>
  A number: \<^verbatim>\<open>-? (0 | [1-9][0-9]*) (. [0-9]+)? ([eE] [+-]? [0-9]+)?\<close>.
\<close>

definition parse_int_part :: "string \<Rightarrow> (string \<times> string) option" where
  "parse_int_part s =
     (case s of
        [] \<Rightarrow> None
      | c # r \<Rightarrow>
          if c = CHR ''0'' then Some ([c], r)
          else if is_digit c then Some (takeWhile is_digit s, dropWhile is_digit s)
          else None)"

definition parse_frac_part :: "string \<Rightarrow> (string \<times> string) option" where
  "parse_frac_part s =
     (case s of
        [] \<Rightarrow> Some ([], s)
      | c # r \<Rightarrow>
          if c = CHR ''.'' then
            (if takeWhile is_digit r = [] then None
             else Some (takeWhile is_digit r, dropWhile is_digit r))
          else Some ([], s))"

definition parse_exp_part :: "string \<Rightarrow> (int \<times> string) option" where
  "parse_exp_part s =
     (case s of
        [] \<Rightarrow> Some (0, s)
      | c # r \<Rightarrow>
          if c = CHR ''e'' \<or> c = CHR ''E'' then
            (let neg = (r \<noteq> [] \<and> hd r = CHR ''-'');
                 r' = (if r \<noteq> [] \<and> (hd r = CHR ''-'' \<or> hd r = CHR ''+'') then tl r else r)
             in if takeWhile is_digit r' = [] then None
                else Some ((if neg then - 1 else 1) * int (nat_of_digits (takeWhile is_digit r')),
                           dropWhile is_digit r'))
          else Some (0, s))"

definition parse_number :: "string \<Rightarrow> (json \<times> string) option" where
  "parse_number s =
     (let neg = (s \<noteq> [] \<and> hd s = CHR ''-'');
          s1 = (if neg then tl s else s)
      in case parse_int_part s1 of
           None \<Rightarrow> None
         | Some (ip, s2) \<Rightarrow>
             (case parse_frac_part s2 of
                None \<Rightarrow> None
              | Some (fp, s3) \<Rightarrow>
                  (case parse_exp_part s3 of
                     None \<Rightarrow> None
                   | Some (ex, s4) \<Rightarrow>
                       Some (JNumber ((if neg then - 1 else 1) * int (nat_of_digits (ip @ fp)))
                                     (ex - int (length fp)), s4))))"

definition parse_literal :: "string \<Rightarrow> (json \<times> string) option" where
  "parse_literal s =
     (if take 4 s = ''true'' then Some (JBool True, drop 4 s)
      else if take 5 s = ''false'' then Some (JBool False, drop 5 s)
      else if take 4 s = ''null'' then Some (JNull, drop 4 s)
      else parse_number s)"

text \<open>
  The value grammar, with fuel for the nesting: every call consumes a character before it
  recurses, so the length of the text is enough.
\<close>

fun parse_value :: "nat \<Rightarrow> string \<Rightarrow> (json \<times> string) option"
  and parse_elements :: "nat \<Rightarrow> string \<Rightarrow> (json list \<times> string) option"
  and parse_members :: "nat \<Rightarrow> string \<Rightarrow> ((string \<times> json) list \<times> string) option"
where
  "parse_value 0 s = None"
| "parse_value (Suc n) s =
     (case skip_ws s of
        [] \<Rightarrow> None
      | c # r \<Rightarrow>
          if c = CHR 0x22 then map_option (\<lambda>(x, t). (JString x, t)) (parse_string_body r)
          else if c = CHR ''['' then
            (if skip_ws r \<noteq> [] \<and> hd (skip_ws r) = CHR '']'' then Some (JArray [], tl (skip_ws r))
             else map_option (\<lambda>(xs, t). (JArray xs, t)) (parse_elements n r))
          else if c = CHR ''{'' then
            (if skip_ws r \<noteq> [] \<and> hd (skip_ws r) = CHR ''}'' then Some (JObject [], tl (skip_ws r))
             else map_option (\<lambda>(kvs, t). (JObject kvs, t)) (parse_members n r))
          else parse_literal (c # r))"
| "parse_elements 0 s = None"
| "parse_elements (Suc n) s =
     (case parse_value n s of
        None \<Rightarrow> None
      | Some (v, t) \<Rightarrow>
          (case skip_ws t of
             [] \<Rightarrow> None
           | c # t' \<Rightarrow>
               if c = CHR '','' then map_option (\<lambda>(vs, u). (v # vs, u)) (parse_elements n t')
               else if c = CHR '']'' then Some ([v], t')
               else None))"
| "parse_members 0 s = None"
| "parse_members (Suc n) s =
     (case skip_ws s of
        [] \<Rightarrow> None
      | q # r \<Rightarrow>
          if q \<noteq> CHR 0x22 then None
          else
            (case parse_string_body r of
               None \<Rightarrow> None
             | Some (k, t) \<Rightarrow>
                 (case skip_ws t of
                    [] \<Rightarrow> None
                  | c # t' \<Rightarrow>
                      if c \<noteq> CHR '':'' then None
                      else
                        (case parse_value n t' of
                           None \<Rightarrow> None
                         | Some (v, u) \<Rightarrow>
                             (case skip_ws u of
                                [] \<Rightarrow> None
                              | d # u' \<Rightarrow>
                                  if d = CHR '','' then
                                    map_option (\<lambda>(kvs, w). ((k, v) # kvs, w)) (parse_members n u')
                                  else if d = CHR ''}'' then Some ([(k, v)], u')
                                  else None)))))"

text \<open>\<^verbatim>\<open>JSON.parse\<close>: \<open>None\<close> is the SyntaxError.\<close>

definition JSON_parse :: "string \<Rightarrow> json option" where
  "JSON_parse s =
     (case parse_value (Suc (length s)) s of
        None \<Rightarrow> None
      | Some (v, t) \<Rightarrow> if skip_ws t = [] then Some v else None)"

text \<open>
  Reading property \<open>i\<close> (0 or 1 here) of a parsed value other than \<open>null\<close>; \<open>None\<close> is
  \<open>undefined\<close>. A later duplicate key of an object wins.
\<close>

fun js_index :: "json \<Rightarrow> nat \<Rightarrow> json option" where
  "js_index (JArray xs) i = (if i < length xs then Some (xs ! i) else None)"
| "js_index (JString s) i = (if i < length s then Some (JString [s ! i]) else None)"
| "js_index (JObject kvs) i = map_of (rev kvs) [char_of (48 + i)]"
| "js_index (JNumber m e) i = None"
| "js_index (JBool b) i = None"
| "js_index JNull i = None"

subsection \<open>Dates\<close>

text \<open>
  Time values follow ECMAScript: milliseconds since 1970-01-01T00:00:00Z in the proleptic
  Gregorian calendar, at most \<open>8.64 \<times> 10\<^sup>1\<^sup>5\<close> in absolute value.
\<close>

definition msPerDay :: int where
  "msPerDay = 86400000"

definition maxTime :: int where
  "maxTime = 8640000000000000"

definition TimeClip :: "int \<Rightarrow> int option" where
  "TimeClip t = (if \<bar>t\<bar> \<le> maxTime then Some t else None)"

definition DayFromYear :: "int \<Rightarrow> int" where
  "DayFromYear y = 365 * (y - 1970) + (y - 1969) div 4 - (y - 1901) div 100 + (y - 1601) div 400"

definition InLeapYear :: "int \<Rightarrow> bool" where
  "InLeapYear y = (y mod 4 = 0 \<and> (y mod 100 \<noteq> 0 \<or> y mod 400 = 0))"

text \<open>
  The year of a day number, by the cycles of 400, 100, 4 and 1 years counted from
  1601-01-01 (day \<open>-134774\<close>).
\<close>

definition YearFromDay :: "int \<Rightarrow> int" where
  "YearFromDay d =
     (let d' = d + 134774;
          n400 = d' div 146097;
          r = d' mod 146097;
          n100 = min (r div 36524) 3;
          r2 = r - n100 * 36524;
          n4 = r2 div 1461;
          r3 = r2 mod 1461;
          n1 = min (r3 div 365) 3
      in 1601 + 400 * n400 + 100 * n100 + 4 * n4 + n1)"

text \<open>The day within the year on which month \<open>m\<close> (0 to 11) starts.\<close>

definition month_start :: "bool \<Rightarrow> nat \<Rightarrow> int" where
  "month_start leap m =
     [0, 31, 59, 90, 120, 151, 181, 212, 243, 273, 304, 334] ! m
       + (if leap \<and> 2 \<le> m then 1 else 0)"

definition MonthFromDay :: "bool \<Rightarrow> int \<Rightarrow> nat" where
  "MonthFromDay leap doy =
     (if doy < month_start leap 1 then 0
      else if doy < month_start leap 2 then 1
      else if doy < month_start leap 3 then 2
      else if doy < month_start leap 4 then 3
      else if doy < month_start leap 5 then 4
      else if doy < month_start leap 6 then 5
      else if doy < month_start leap 7 then 6
      else if doy < month_start leap 8 then 7
      else if doy < month_start leap 9 then 8
      else if doy < month_start leap 10 then 9
      else if doy < month_start leap 11 then 10
      else 11)"

text \<open>A number as exactly \<open>w\<close> decimal digits.\<close>

fun pad :: "nat \<Rightarrow> nat \<Rightarrow> string" where
  "pad 0 n = []"
| "pad (Suc w) n = pad w (n div 10) @ [char_of (48 + n mod 10)]"

definition year_string :: "int \<Rightarrow> string" where
  "year_string y =
     (if 0 \<le> y \<and> y \<le> 9999 then pad 4 (nat y)
      else (if y < 0 then ''-'' else ''+'') @ pad 6 (nat \<bar>y\<bar>))"

text \<open>\<^verbatim>\<open>Date.prototype.toISOString\<close> of a valid date.\<close>

definition toISOString :: "int \<Rightarrow> string" where
  "toISOString t =
     (let day = t div msPerDay;
          tod = t mod msPerDay;
          y = YearFromDay day;
          doy = day - DayFromYear y;
          m = MonthFromDay (InLeapYear y) doy;
          dom = doy - month_start (InLeapYear y) m + 1
      in year_string y @ ''-'' @ pad 2 (Suc m) @ ''-'' @ pad 2 (nat dom) @ ''T''
           @ pad 2 (nat (tod div 3600000)) @ '':'' @ pad 2 (nat (tod div 60000 mod 60)) @ '':''
           @ pad 2 (nat (tod div 1000 mod 60)) @ ''.'' @ pad 3 (nat (tod mod 1000)) @ ''Z'')"

definition digits_val :: "string \<Rightarrow> nat option" where
  "digits_val ds = (if list_all is_digit ds then Some (nat_of_digits ds) else None)"

definition parse_year :: "string \<Rightarrow> (int \<times> string) option" where
  "parse_year s =
     (if s \<noteq> [] \<and> (hd s = CHR ''+'' \<or> hd s = CHR ''-'') then
        (if length s < 7 then None
         else case digits_val (take 6 (tl s)) of
                None \<Rightarrow> None
              | Some y \<Rightarrow>
                  if hd s = CHR ''-'' then (if y = 0 then None else Some (- int y, drop 7 s))
                  else Some (int y, drop 7 s))
      else if length s < 4 then None
      else map_option (\<lambda>y. (int y, drop 4 s)) (digits_val (take 4 s)))"

text \<open>
  \<^verbatim>\<open>Date.parse\<close> on the date-time format \<^verbatim>\<open>YYYY-MM-DDTHH:mm:ss.sssZ\<close> (also with an
  expanded year), the shape \<^verbatim>\<open>toISOString\<close> emits. ECMAScript leaves every other format
  to the implementation; here they give an Invalid Date.
\<close>

definition Date_parse :: "string \<Rightarrow> int option" where
  "Date_parse s =
     (case parse_year s of
        None \<Rightarrow> None
      | Some (y, r) \<Rightarrow>
          if length r \<noteq> 20 \<or> r ! 0 \<noteq> CHR ''-'' \<or> r ! 3 \<noteq> CHR ''-'' \<or> r ! 6 \<noteq> CHR ''T''
             \<or> r ! 9 \<noteq> CHR '':'' \<or> r ! 12 \<noteq> CHR '':'' \<or> r ! 15 \<noteq> CHR ''.'' \<or> r ! 19 \<noteq> CHR ''Z''
          then None
          else
            (case (digits_val (take 2 (drop 1 r)), digits_val (take 2 (drop 4 r)),
                   digits_val (take 2 (drop 7 r)), digits_val (take 2 (drop 10 r)),
                   digits_val (take 2 (drop 13 r)), digits_val (take 3 (drop 16 r))) of
               (Some mo, Some d, Some h, Some mi, Some sec, Some ms) \<Rightarrow>
                 if mo < 1 \<or> 12 < mo \<or> d < 1 \<or> 31 < d \<or> 59 < mi \<or> 59 < sec
                    \<or> (23 < h \<and> \<not> (h = 24 \<and> mi = 0 \<and> sec = 0 \<and> ms = 0))
                 then None
                 else TimeClip
                   ((DayFromYear y + month_start (InLeapYear y) (mo - 1) + (int d - 1)) * msPerDay
                     + int h * 3600000 + int mi * 60000 + int sec * 1000 + int ms)
             | _ \<Rightarrow> None))"

text \<open>
  \<^verbatim>\<open>new Date(v)\<close> for a parsed value \<open>v\<close> (\<open>None\<close> is \<open>undefined\<close>); the result \<open>None\<close>
  is an Invalid Date. A number is truncated towards zero; an array is first turned into
  the string of its elements, an object into a string that is no date.
\<close>

definition trunc_decimal :: "int \<Rightarrow> int \<Rightarrow> int" where
  "trunc_decimal m e =
     (if 0 \<le> e then m * 10 ^ nat e
      else if 0 \<le> m then m div 10 ^ nat (- e)
      else - ((- m) div 10 ^ nat (- e)))"

fun new_Date :: "json option \<Rightarrow> int option" where
  "new_Date None = None"
| "new_Date (Some (JString s)) = Date_parse s"
| "new_Date (Some (JNumber m e)) = TimeClip (trunc_decimal m e)"
| "new_Date (Some (JBool b)) = Some (if b then 1 else 0)"
| "new_Date (Some JNull) = Some 0"
| "new_Date (Some (JArray xs)) = (case xs of [JString s] \<Rightarrow> Date_parse s | _ \<Rightarrow> None)"
| "new_Date (Some (JObject kvs)) = None"

section \<open>Orders and the store\<close>

text \<open>
  Modelled from the spec: the enumeration of order statuses, whose declaration (the
  generated database client) is not among the sources. The specification calls it an
  enumerated set without listing it; the three values the sources name are constructors,
  any other value of the set is \<open>OtherStatus\<close> with its name.
\<close>

datatype OrderStatus = COMPLETED | OUT_FOR_DELIVERY | CANCELLED | OtherStatus string

text \<open>
  Modelled from the spec: the order row, whose declaration (the database schema) is not
  among the sources. The fields are those of the specification's data model: the identity
  \<open>id\<close> (here \<open>order_id\<close>), the display id, shop and user, the statuses, the payment
  method, the total price in minor units, the two timestamps, the optional delivery agent
  and delivery time, the address snapshot and the order lines (product, quantity, unit
  price). \<open>user_email\<close> is the e-mail address of the related user, which the search
  filter reads.
\<close>

record Order =
  order_id :: string
  display_id :: string
  shop_id :: string
  user_id :: string
  user_email :: string
  order_status :: OrderStatus
  payment_status :: string
  payment_method :: string
  total_price :: int
  created_at :: int
  updated_at :: int
  assigned_to :: "string option"
  actual_delivery_time :: "int option"
  delivery_address_snapshot :: string
  items :: "(string \<times> int \<times> int) list"

datatype error = TypeError | PrismaClientValidationError | RecordNotFound

subsection \<open>Filters\<close>

datatype where_clause =
    display_id_contains string
  | delivery_address_snapshot_contains string
  | user_email_contains string
  | created_at_lt "int option"
  | created_at_equals "int option"
  | id_lt "json option"
  | AND "where_clause list"

text \<open>
  The filter object: the keys \<open>shop_id\<close>, \<open>order_status\<close>, \<open>created_at\<close> (\<open>gte\<close> and
  \<open>lte\<close>) and \<open>OR\<close>. A key that is not set is \<open>None\<close>.
\<close>

record OrderWhereInput =
  w_shop_id :: string
  w_order_status :: "OrderStatus option"
  w_created_at :: "(int \<times> int) option"
  w_OR :: "where_clause list option"

definition to_lower :: "char \<Rightarrow> char" where
  "to_lower c =
     (if 65 \<le> (of_char c :: nat) \<and> (of_char c :: nat) \<le> 90 then char_of ((of_char c :: nat) + 32)
      else c)"

fun is_prefix :: "string \<Rightarrow> string \<Rightarrow> bool" where
  "is_prefix [] ys = True"
| "is_prefix (x # xs) [] = False"
| "is_prefix (x # xs) (y # ys) = (x = y \<and> is_prefix xs ys)"

fun is_substring :: "string \<Rightarrow> string \<Rightarrow> bool" where
  "is_substring t [] = (t = [])"
| "is_substring t (c # cs) = (is_prefix t (c # cs) \<or> is_substring t cs)"

text \<open>\<^verbatim>\<open>{ contains: t, mode: "insensitive" }\<close>.\<close>

definition contains_insensitive :: "string \<Rightarrow> string \<Rightarrow> bool" where
  "contains_insensitive t s = is_substring (map to_lower t) (map to_lower s)"

text \<open>
  The client rejects a query that carries an Invalid Date or a comparison operand of the
  wrong type; an operand that is \<open>undefined\<close> is an absent filter.
\<close>

fun valid_clause :: "where_clause \<Rightarrow> bool" where
  "valid_clause (created_at_lt d) = (d \<noteq> None)"
| "valid_clause (created_at_equals d) = (d \<noteq> None)"
| "valid_clause (id_lt v) = (case v of None \<Rightarrow> True | Some (JString s) \<Rightarrow> True | Some _ \<Rightarrow> False)"
| "valid_clause (AND cs) = list_all valid_clause cs"
| "valid_clause (display_id_contains t) = True"
| "valid_clause (delivery_address_snapshot_contains t) = True"
| "valid_clause (user_email_contains t) = True"

fun matches_clause :: "Order \<Rightarrow> where_clause \<Rightarrow> bool" where
  "matches_clause r (display_id_contains t) = contains_insensitive t (display_id r)"
| "matches_clause r (delivery_address_snapshot_contains t) =
     contains_insensitive t (delivery_address_snapshot r)"
| "matches_clause r (user_email_contains t) = contains_insensitive t (user_email r)"
| "matches_clause r (created_at_lt d) = (case d of None \<Rightarrow> False | Some t \<Rightarrow> created_at r < t)"
| "matches_clause r (created_at_equals d) = (case d of None \<Rightarrow> False | Some t \<Rightarrow> created_at r = t)"
| "matches_clause r (id_lt v) =
     (case v of None \<Rightarrow> True | Some (JString s) \<Rightarrow> order_id r < s | Some _ \<Rightarrow> False)"
| "matches_clause r (AND cs) = list_all (matches_clause r) cs"

definition valid_where :: "OrderWhereInput \<Rightarrow> bool" where
  "valid_where w = (case w_OR w of None \<Rightarrow> True | Some cs \<Rightarrow> list_all valid_clause cs)"

definition matches_where :: "OrderWhereInput \<Rightarrow> Order \<Rightarrow> bool" where
  "matches_where w r =
     (shop_id r = w_shop_id w
      \<and> (case w_order_status w of None \<Rightarrow> True | Some st \<Rightarrow> order_status r = st)
      \<and> (case w_created_at w of None \<Rightarrow> True | Some (from, to) \<Rightarrow> from \<le> created_at r \<and> created_at r \<le> to)
      \<and> (case w_OR w of None \<Rightarrow> True | Some cs \<Rightarrow> list_ex (matches_clause r) cs))"

subsection \<open>Ordering and pages\<close>

datatype sort_field = by_created_at | by_id

datatype SortOrder = asc | desc

fun field_before :: "sort_field \<times> SortOrder \<Rightarrow> Order \<Rightarrow> Order \<Rightarrow> bool" where
  "field_before (by_created_at, desc) a b = (created_at b < created_at a)"
| "field_before (by_created_at, asc) a b = (created_at a < created_at b)"
| "field_before (by_id, desc) a b = (order_id b < order_id a)"
| "field_before (by_id, asc) a b = (order_id a < order_id b)"

fun comes_before :: "(sort_field \<times> SortOrder) list \<Rightarrow> Order \<Rightarrow> Order \<Rightarrow> bool" where
  "comes_before [] a b = False"
| "comes_before (k # ks) a b =
     (field_before k a b \<or> (\<not> field_before k b a \<and> comes_before ks a b))"

text \<open>
  Rows that the sort keys do not tell apart come back in the order the table holds them:
  the sort is a stable insertion sort over the stored rows.
\<close>

fun insert_row :: "(sort_field \<times> SortOrder) list \<Rightarrow> Order \<Rightarrow> Order list \<Rightarrow> Order list" where
  "insert_row ks x [] = [x]"
| "insert_row ks x (y # ys) =
     (if comes_before ks y x then y # insert_row ks x ys else x # y # ys)"

definition sort_rows :: "(sort_field \<times> SortOrder) list \<Rightarrow> Order list \<Rightarrow> Order list" where
  "sort_rows ks rows = foldr (insert_row ks) rows []"

record FindManyArgs =
  fm_where :: OrderWhereInput
  fm_orderBy :: "(sort_field \<times> SortOrder) list"
  fm_cursor :: "string option"
  fm_skip :: nat
  fm_take :: int

text \<open>
  \<^verbatim>\<open>prisma.order.findMany\<close>: the matching rows in the requested order, from the row
  whose id is the cursor on (nothing when no matching row has that id), without the first
  \<open>skip\<close> of them, at most \<open>take\<close> of them. A negative \<open>take\<close> pages backwards.
\<close>

definition findMany :: "Order list \<Rightarrow> FindManyArgs \<Rightarrow> error + Order list" where
  "findMany db a =
     (if \<not> valid_where (fm_where a) then Inl PrismaClientValidationError
      else
        let rows = sort_rows (fm_orderBy a) (filter (matches_where (fm_where a)) db);
            directed = (if fm_take a < 0 then rev rows else rows);
            from_cursor =
              (case fm_cursor a of
                 None \<Rightarrow> directed
               | Some c \<Rightarrow> dropWhile (\<lambda>r. order_id r \<noteq> c) directed);
            page = take (nat \<bar>fm_take a\<bar>) (drop (fm_skip a) from_cursor)
        in Inr (if fm_take a < 0 then rev page else page))"

section \<open>The order repository\<close>

record GetPaginatedOrdersOptions =
  shop_id_arg :: string
  limit :: "int option"
  cursor :: "string option"
  searchTerm :: "string option"
  orderStatus :: "OrderStatus option"
  dateRange :: "(int \<times> int) option"

record Page =
  orders :: "Order list"
  nextCursor :: "string option"

text \<open>A string option in a condition: \<open>undefined\<close> and the empty string are falsy.\<close>

definition truthy :: "string option \<Rightarrow> bool" where
  "truthy s = (case s of None \<Rightarrow> False | Some x \<Rightarrow> x \<noteq> [])"

text \<open>\<^verbatim>\<open>xs[i]\<close>: \<open>None\<close> is \<open>undefined\<close>.\<close>

definition js_nth :: "'a list \<Rightarrow> int \<Rightarrow> 'a option" where
  "js_nth xs i = (if 0 \<le> i \<and> i < int (length xs) then Some (xs ! nat i) else None)"

text \<open>\<^verbatim>\<open>xs.pop()\<close>: the removed element and the list left.\<close>

definition pop :: "'a list \<Rightarrow> 'a option \<times> 'a list" where
  "pop xs = (if xs = [] then (None, []) else (Some (last xs), butlast xs))"

definition search_clauses :: "string \<Rightarrow> where_clause list" where
  "search_clauses t =
     [display_id_contains t, delivery_address_snapshot_contains t, user_email_contains t]"

text \<open>The filter both listing functions build from the options (lines 515-529, 583-609).\<close>

definition build_where :: "GetPaginatedOrdersOptions \<Rightarrow> OrderWhereInput" where
  "build_where opts =
     \<lparr> w_shop_id = shop_id_arg opts,
       w_order_status = orderStatus opts,
       w_created_at = dateRange opts,
       w_OR = (case searchTerm opts of
                 None \<Rightarrow> None
               | Some t \<Rightarrow> if t = [] then None else Some (search_clauses t)) \<rparr>"

definition page_limit :: "GetPaginatedOrdersOptions \<Rightarrow> int" where
  "page_limit opts = (case limit opts of None \<Rightarrow> 10 | Some l \<Rightarrow> l)"

text \<open>The query of the path without a search term (lines 611-618).\<close>

definition db_query :: "GetPaginatedOrdersOptions \<Rightarrow> FindManyArgs" where
  "db_query opts =
     \<lparr> fm_where = build_where opts,
       fm_orderBy = [(by_created_at, desc)],
       fm_cursor = (if truthy (cursor opts) then cursor opts else None),
       fm_skip = (if truthy (cursor opts) then 1 else 0),
       fm_take = page_limit opts + 1 \<rparr>"

definition getPaginatedShopOrdersFromDB ::
  "Order list \<Rightarrow> GetPaginatedOrdersOptions \<Rightarrow> error + Page" where
  "getPaginatedShopOrdersFromDB db opts =
     (case findMany db (db_query opts) of
        Inl e \<Rightarrow> Inl e
      | Inr rows \<Rightarrow>
          if page_limit opts < int (length rows) then
            Inr \<lparr> orders = snd (pop rows), nextCursor = map_option order_id (fst (pop rows)) \<rparr>
          else Inr \<lparr> orders = rows, nextCursor = None \<rparr>)"

text \<open>The token issued for the search path (lines 563-565).\<close>

definition encodeCursor :: "int \<Rightarrow> string \<Rightarrow> string" where
  "encodeCursor t i = base64_encode (JSON_stringify_pair (toISOString t) i)"

text \<open>
  Reading a token (lines 534-543): \<open>None\<close> when the \<^verbatim>\<open>try\<close> block throws (the text is
  not JSON, or it is \<open>null\<close>, which has no properties), otherwise the date and the id
  operand of the range condition.
\<close>

definition decodeCursor :: "string \<Rightarrow> (int option \<times> json option) option" where
  "decodeCursor c =
     (case JSON_parse (base64_decode c) of
        None \<Rightarrow> None
      | Some cursorData \<Rightarrow>
          if cursorData = JNull then None
          else Some (new_Date (js_index cursorData 0), js_index cursorData 1))"

definition cursorCondition :: "string option \<Rightarrow> where_clause list option" where
  "cursorCondition cur =
     (case cur of
        None \<Rightarrow> None
      | Some c \<Rightarrow>
          if c = [] then None
          else
            (case decodeCursor c of
               None \<Rightarrow> None
             | Some (d, i) \<Rightarrow> Some [created_at_lt d, AND [created_at_equals d, id_lt i]]))"

text \<open>
  \<^verbatim>\<open>{ ...where, ...cursorCondition }\<close>: a key of the second object replaces the same key
  of the first.
\<close>

definition spread_where :: "OrderWhereInput \<Rightarrow> where_clause list option \<Rightarrow> OrderWhereInput" where
  "spread_where w cond = (case cond of None \<Rightarrow> w | Some cs \<Rightarrow> w\<lparr> w_OR := Some cs \<rparr>)"

text \<open>The query of the search path (lines 553-558).\<close>

definition search_query :: "GetPaginatedOrdersOptions \<Rightarrow> FindManyArgs" where
  "search_query opts =
     \<lparr> fm_where = spread_where (build_where opts) (cursorCondition (cursor opts)),
       fm_orderBy = [(by_created_at, desc), (by_id, desc)],
       fm_cursor = None,
       fm_skip = 0,
       fm_take = page_limit opts + 1 \<rparr>"

definition getPaginatedShopOrders ::
  "Order list \<Rightarrow> GetPaginatedOrdersOptions \<Rightarrow> error + Page" where
  "getPaginatedShopOrders db opts =
     (if \<not> truthy (searchTerm opts) then
        getPaginatedShopOrdersFromDB db (opts\<lparr> limit := Some (page_limit opts), searchTerm := None \<rparr>)
      else
        case findMany db (search_query opts) of
          Inl e \<Rightarrow> Inl e
        | Inr rows \<Rightarrow>
            if page_limit opts < int (length rows) then
              (case js_nth rows (page_limit opts - 1) of
                 None \<Rightarrow> Inl TypeError
               | Some lastOrder \<Rightarrow>
                   Inr \<lparr> orders = snd (pop rows),
                         nextCursor = Some (encodeCursor (created_at lastOrder) (order_id lastOrder)) \<rparr>)
            else Inr \<lparr> orders = rows, nextCursor = None \<rparr>)"

text \<open>
  \<^verbatim>\<open>prisma.order.update\<close> fails when no row has the id; a field of \<open>data\<close> that is
  \<open>undefined\<close> is left as it is. The result is the updated row and the table.
\<close>

definition updateStatus ::
  "Order list \<Rightarrow> string \<Rightarrow> OrderStatus \<Rightarrow> string option \<Rightarrow> int option \<Rightarrow> error + (Order \<times> Order list)" where
  "updateStatus db oid st agent delivered =
     (let upd = (\<lambda>r. r\<lparr> order_status := st,
                         assigned_to := (case agent of None \<Rightarrow> assigned_to r | Some a \<Rightarrow> Some a),
                         actual_delivery_time :=
                           (case delivered of None \<Rightarrow> actual_delivery_time r | Some t \<Rightarrow> Some t) \<rparr>)
      in case find (\<lambda>r. order_id r = oid) db of
           None \<Rightarrow> Inl RecordNotFound
         | Some r \<Rightarrow> Inr (upd r, map (\<lambda>x. if order_id x = oid then upd x else x) db))"

text \<open>
  \<^verbatim>\<open>prisma.order.updateMany\<close>: the number of rows whose id is in the list, and the table
  with the status of those rows set.
\<close>

definition batchUpdateStatus :: "Order list \<Rightarrow> string list \<Rightarrow> OrderStatus \<Rightarrow> int \<times> Order list" where
  "batchUpdateStatus db ids st =
     (int (length (filter (\<lambda>r. order_id r \<in> set ids) db)),
      map (\<lambda>r. if order_id r \<in> set ids then r\<lparr> order_status := st \<rparr> else r) db)"

section \<open>Example data\<close>

text \<open>
  Three orders of one shop: \<open>order_A\<close> (10:00, id 3), \<open>order_B\<close> (10:00, id 2) and
  \<open>order_C\<close> (09:59, id 9), the times on 1970-01-01.
\<close>

definition example_order :: "string \<Rightarrow> int \<Rightarrow> string \<Rightarrow> Order" where
  "example_order i t d =
     \<lparr> order_id = i, display_id = d, shop_id = ''s1'', user_id = ''u1'',
       user_email = ''u1@campus.test'', order_status = OUT_FOR_DELIVERY,
       payment_status = ''PENDING'', payment_method = ''CASH'', total_price = 12000,
       created_at = t, updated_at = t, assigned_to = None, actual_delivery_time = None,
       delivery_address_snapshot = ''Hostel 4'', items = [(''p1'', 2, 6000)] \<rparr>"

definition order_A :: Order where
  "order_A = example_order ''3'' 36000000 ''ORD-A''"

definition order_B :: Order where
  "order_B = example_order ''2'' 36000000 ''ORD-B''"

definition order_C :: Order where
  "order_C = example_order ''9'' 35940000 ''ORD-C''"

definition example_request ::
  "int \<Rightarrow> string option \<Rightarrow> string option \<Rightarrow> GetPaginatedOrdersOptions" where
  "example_request l c s =
     \<lparr> shop_id_arg = ''s1'', limit = Some l, cursor = c, searchTerm = s,
       orderStatus = None, dateRange = None \<rparr>"

section \<open>Facts about sorting and the filters\<close>



lemma set_insert_row: "set (insert_row ks x ys) = insert x (set ys)"
  by (induction ys) auto

lemma set_sort_rows: "set (sort_rows ks rows) = set rows"
  unfolding sort_rows_def by (induction rows) (auto simp: set_insert_row)

lemma valid_build_where: "valid_where (build_where opts)"
  by (simp add: valid_where_def build_where_def search_clauses_def split: option.splits)

lemma find_map_update:
  assumes "find (\<lambda>r. order_id r = oid) xs = Some r" and "\<And>x. order_id (f x) = order_id x"
  shows "find (\<lambda>x. order_id x = oid) (map (\<lambda>x. if order_id x = oid then f x else x) xs) = Some (f r)"
  using assms by (induction xs) (auto split: if_splits)

lemma find_order_id: "find (\<lambda>r. order_id r = oid) xs = Some r \<Longrightarrow> order_id r = oid"
  by (induction xs) (auto split: if_splits)

lemma insert_row_created_at_desc:
  "sorted_wrt (\<lambda>x y. created_at y \<le> created_at x) ys \<Longrightarrow>
   sorted_wrt (\<lambda>x y. created_at y \<le> created_at x) (insert_row [(by_created_at, desc)] x ys)"
proof (induction ys)
  case Nil
  then show ?case by simp
next
  case (Cons y ys)
  have set_ins: "\<And>zs. set (insert_row [(by_created_at, desc)] x zs) = insert x (set zs)"
    subgoal for zs by (induction zs) auto
    done
  from Cons show ?case by (auto simp: set_ins)
qed

lemma sort_rows_created_at_desc:
  "sorted_wrt (\<lambda>x y. created_at y \<le> created_at x) (sort_rows [(by_created_at, desc)] rows)"
  unfolding sort_rows_def by (induction rows) (simp_all add: insert_row_created_at_desc)

lemma sorted_wrt_dropWhile: "sorted_wrt P xs \<Longrightarrow> sorted_wrt P (dropWhile Q xs)"
  by (induction xs) auto

section \<open>Facts about the cursor token\<close>

subsection \<open>Base64\<close>

lemma unbase64_base64_char: "n < 64 \<Longrightarrow> unbase64 (base64_char n) = Some n"
  by (auto simp: unbase64_def base64_char_def Let_def)

lemma base64_char_neq_pad:
  assumes "n < 64"
  shows "base64_char n \<noteq> CHR ''=''"
proof
  assume "base64_char n = CHR ''=''"
  then have "(of_char (base64_char n) :: nat) = of_char (CHR ''='')" by simp
  with assms show False by (auto simp: base64_char_def split: if_splits)
qed

lemma sextets_of_lt: "\<forall>b \<in> set bs. b < 256 \<Longrightarrow> \<forall>x \<in> set (sextets_of bs). x < 64"
  by (induction bs rule: sextets_of.induct) (auto simp: less_mult_imp_div_less)

lemma map_filter_unbase64:
  "\<forall>x \<in> set sx. x < 64 \<Longrightarrow> List.map_filter unbase64 (map base64_char sx) = sx"
  by (induction sx) (auto simp: List.map_filter_simps unbase64_base64_char)

lemma takeWhile_base64: 
  assumes "\<forall>x \<in> set sx. x < 64" and "p = [] \<or> hd p = CHR ''=''"
  shows "takeWhile (\<lambda>c. c \<noteq> CHR ''='') (map base64_char sx @ p) = map base64_char sx"
proof -
  have "\<And>c. c \<in> set (map base64_char sx) \<Longrightarrow> c \<noteq> CHR ''=''"
    using assms(1) by (auto simp: base64_char_neq_pad)
  then have "takeWhile (\<lambda>c. c \<noteq> CHR ''='') (map base64_char sx @ p)
      = map base64_char sx @ takeWhile (\<lambda>c. c \<noteq> CHR ''='') p"
    by (rule takeWhile_append2)
  moreover have "takeWhile (\<lambda>c. c \<noteq> CHR ''='') p = []"
    using assms(2) by (cases p) auto
  ultimately show ?thesis by simp
qed

lemma bytes_of_sextets_of: "\<forall>b \<in> set bs. b < 256 \<Longrightarrow> bytes_of_sextets (sextets_of bs) = bs"
  by (induction bs rule: sextets_of.induct) (simp_all add: less_mult_imp_div_less)

lemma base64_round_trip: "base64_decode (base64_encode bytes) = bytes"
proof -
  let ?bs = "map of_char bytes :: nat list"
  have lt: "\<forall>b \<in> set ?bs. b < 256" by auto
  have sx: "\<forall>x \<in> set (sextets_of ?bs). x < 64" using lt by (rule sextets_of_lt)
  have pad: "base64_padding (length bytes) = [] \<or> hd (base64_padding (length bytes)) = CHR ''=''"
    by simp
  have "takeWhile (\<lambda>c. c \<noteq> CHR ''='') (base64_encode bytes) = map base64_char (sextets_of ?bs)"
    unfolding base64_encode_def using sx pad by (rule takeWhile_base64)
  then have "base64_decode (base64_encode bytes) = map char_of (bytes_of_sextets (sextets_of ?bs))"
    by (simp add: base64_decode_def map_filter_unbase64[OF sx])
  also have "\<dots> = map char_of ?bs" by (simp only: bytes_of_sextets_of[OF lt])
  also have "\<dots> = bytes" by (simp add: comp_def)
  finally show ?thesis .
qed

subsection \<open>JSON text\<close>

lemma char_eq_by_code: "(of_char c :: nat) = of_char d \<Longrightarrow> c = d"
  by simp

lemma hex_val_hex_digit: "k < 16 \<Longrightarrow> hex_val (hex_digit k) = Some k"
  by (auto simp: hex_val_def hex_digit_def Let_def)

lemma code_unit_of_control:
  assumes "n < 32"
  shows "code_unit_of_hex (CHR ''0'') (CHR ''0'') (hex_digit (n div 16)) (hex_digit (n mod 16)) = Some n"
proof -
  have "hex_val (CHR ''0'') = Some 0" by (simp add: hex_val_def)
  moreover have "hex_val (hex_digit (n div 16)) = Some (n div 16)"
    using assms by (intro hex_val_hex_digit) simp
  moreover have "hex_val (hex_digit (n mod 16)) = Some (n mod 16)"
    by (intro hex_val_hex_digit) simp
  ultimately show ?thesis by (simp add: code_unit_of_hex_def)
qed

lemma parse_quote_char:
  assumes "parse_string_body rest = Some (s, r)"
  shows "parse_string_body (quote_char c @ rest) = Some (c # s, r)"
proof -
  define n where "n = (of_char c :: nat)"
  consider "n = 34" | "n = 92" | "n = 8" | "n = 12" | "n = 10" | "n = 13" | "n = 9"
    | "n < 32" "n \<noteq> 8" "n \<noteq> 12" "n \<noteq> 10" "n \<noteq> 13" "n \<noteq> 9"
    | "32 \<le> n" "n \<noteq> 34" "n \<noteq> 92"
    by linarith
  then show ?thesis
  proof cases
    case 1
    then have c: "c = CHR 0x22" unfolding n_def by (intro char_eq_by_code) simp
    show ?thesis using assms by (simp add: c quote_char_def unescape_def)
  next
    case 2
    then have c: "c = CHR 0x5C" unfolding n_def by (intro char_eq_by_code) simp
    show ?thesis using assms by (simp add: c quote_char_def unescape_def)
  next
    case 3
    then have c: "c = CHR 0x08" unfolding n_def by (intro char_eq_by_code) simp
    show ?thesis using assms by (simp add: c quote_char_def unescape_def)
  next
    case 4
    then have c: "c = CHR 0x0C" unfolding n_def by (intro char_eq_by_code) simp
    show ?thesis using assms by (simp add: c quote_char_def unescape_def)
  next
    case 5
    then have c: "c = CHR 0x0A" unfolding n_def by (intro char_eq_by_code) simp
    show ?thesis using assms by (simp add: c quote_char_def unescape_def)
  next
    case 6
    then have c: "c = CHR 0x0D" unfolding n_def by (intro char_eq_by_code) simp
    show ?thesis using assms by (simp add: c quote_char_def unescape_def)
  next
    case 7
    then have c: "c = CHR 0x09" unfolding n_def by (intro char_eq_by_code) simp
    show ?thesis using assms by (simp add: c quote_char_def unescape_def)
  next
    case 8
    have q: "quote_char c = [CHR 0x5C, CHR ''u'', CHR ''0'', CHR ''0'', hex_digit (n div 16), hex_digit (n mod 16)]"
      using 8 by (simp add: quote_char_def n_def[symmetric] Let_def)
    have u: "utf8_of_code_unit n = [c]"
      using 8(1) by (simp add: utf8_of_code_unit_def n_def)
    show ?thesis
      using assms by (simp add: q code_unit_of_control[OF 8(1)] u)
  next
    case 9
    have q: "quote_char c = [c]"
      using 9 by (simp add: quote_char_def n_def[symmetric] Let_def)
    have "c \<noteq> CHR 0x22" "c \<noteq> CHR 0x5C" using 9 by (auto simp: n_def)
    then show ?thesis using assms 9(1) by (simp add: q n_def)
  qed
qed

lemma parse_string_body_quote:
  "parse_string_body (concat (map quote_char s) @ CHR 0x22 # r) = Some (s, r)"
  by (induction s) (simp_all add: parse_quote_char)

lemma skip_ws_quote [simp]: "skip_ws (CHR 0x22 # r) = CHR 0x22 # r"
  and skip_ws_bracket [simp]: "skip_ws (CHR ''['' # r) = CHR ''['' # r"
  and skip_ws_comma [simp]: "skip_ws (CHR '','' # r) = CHR '','' # r"
  and skip_ws_close [simp]: "skip_ws (CHR '']'' # r) = CHR '']'' # r"
  and skip_ws_Nil [simp]: "skip_ws [] = []"
  by (simp_all add: skip_ws_def is_ws_def)

lemma parse_value_pair:
  "parse_value (Suc (Suc (Suc (Suc k)))) (JSON_stringify_pair a b)
     = Some (JArray [JString a, JString b], [])"
proof -
  have b: "parse_value (Suc k) (CHR 0x22 # concat (map quote_char b) @ CHR 0x22 # '']'')
          = Some (JString b, '']'')"
    by (simp add: parse_string_body_quote)
  then have eb: "parse_elements (Suc (Suc k)) (CHR 0x22 # concat (map quote_char b) @ CHR 0x22 # '']'')
          = Some ([JString b], [])"
    by simp
  let ?t = "CHR '','' # CHR 0x22 # concat (map quote_char b) @ CHR 0x22 # '']''"
  have a: "parse_value (Suc (Suc k)) (CHR 0x22 # concat (map quote_char a) @ CHR 0x22 # ?t)
          = Some (JString a, ?t)"
    by (simp add: parse_string_body_quote)
  have ea: "parse_elements (Suc (Suc (Suc k))) (CHR 0x22 # concat (map quote_char a) @ CHR 0x22 # ?t)
          = Some ([JString a, JString b], [])"
    using a eb by simp
  have s: "JSON_stringify_pair a b = CHR ''['' # CHR 0x22 # concat (map quote_char a) @ CHR 0x22 # ?t"
    by (simp add: JSON_stringify_pair_def JSON_quote_def)
  show ?thesis
    unfolding s using ea by simp
qed

lemma JSON_parse_pair:
  "JSON_parse (JSON_stringify_pair a b) = Some (JArray [JString a, JString b])"
proof -
  have "3 \<le> length (JSON_stringify_pair a b)"
    by (simp add: JSON_stringify_pair_def JSON_quote_def)
  then obtain k where k: "Suc (length (JSON_stringify_pair a b)) = Suc (Suc (Suc (Suc k)))"
    by (metis Suc_le_D numeral_3_eq_3 Suc_le_mono)
  show ?thesis
    unfolding JSON_parse_def k parse_value_pair by simp
qed

subsection \<open>The calendar\<close>

lemma cycle_split:
  fixes r :: int
  assumes "0 \<le> r" "r < 146097"
  defines "b \<equiv> min (r div 36524) 3"
  defines "r2 \<equiv> r - b * 36524"
  shows "0 \<le> b" "b \<le> 3" "0 \<le> r2" "r2 \<le> 36524" "b < 3 \<Longrightarrow> r2 < 36524"
  using assms by (auto simp: min_def) 

lemma year_split:
  fixes r3 :: int
  assumes "0 \<le> r3" "r3 < 1461"
  defines "e \<equiv> min (r3 div 365) 3"
  shows "0 \<le> e" "e \<le> 3" "0 \<le> r3 - 365 * e" "r3 - 365 * e \<le> 365"
    "r3 - 365 * e = 365 \<Longrightarrow> e = 3 \<and> r3 = 1460"
  using assms by (auto simp: min_def)

text \<open>The day number and the leap year test of a year given by its place in the cycles.\<close>

lemma DayFromYear_cycles:
  fixes a b c e :: int
  assumes "0 \<le> b" "b \<le> 3" "0 \<le> c" "c \<le> 24" "0 \<le> e" "e \<le> 3"
  shows "DayFromYear (1601 + 400 * a + 100 * b + 4 * c + e)
           = 146097 * a + 36524 * b + 1461 * c + 365 * e - 134774"
proof -
  let ?y = "1601 + 400 * a + 100 * b + 4 * c + e"
  have "?y - 1969 = 4 * (100 * a + 25 * b + c - 92) + e" by simp
  then have d4: "(?y - 1969) div 4 = 100 * a + 25 * b + c - 92"
    using assms by (intro int_div_pos_eq[where r = e]) auto
  have "?y - 1901 = 100 * (4 * a + b - 3) + (4 * c + e)" by simp
  then have d100: "(?y - 1901) div 100 = 4 * a + b - 3"
    using assms by (intro int_div_pos_eq[where r = "4 * c + e"]) auto
  have "?y - 1601 = 400 * a + (100 * b + 4 * c + e)" by simp
  then have d400: "(?y - 1601) div 400 = a"
    using assms by (intro int_div_pos_eq[where r = "100 * b + 4 * c + e"]) auto
  show ?thesis
    unfolding DayFromYear_def d4 d100 d400 by simp
qed

lemma mod_zero_small:
  fixes x k :: int
  assumes "0 < x" "x \<le> k"
  shows "x mod k = 0 \<longleftrightarrow> x = k"
proof (cases "x = k")
  case True
  then show ?thesis by simp
next
  case False
  then have "x mod k = x" using assms by simp
  then show ?thesis using assms False by simp
qed

lemma InLeapYear_cycles:
  fixes a b c e :: int
  assumes "0 \<le> b" "b \<le> 3" "0 \<le> c" "c \<le> 24" "0 \<le> e" "e \<le> 3"
  shows "InLeapYear (1601 + 400 * a + 100 * b + 4 * c + e) \<longleftrightarrow> e = 3 \<and> (c \<noteq> 24 \<or> b = 3)"
proof -
  let ?y = "1601 + 400 * a + 100 * b + 4 * c + e"
  have "?y = (1 + e) + (400 + 100 * a + 25 * b + c) * 4" by simp
  then have "?y mod 4 = (1 + e) mod 4"
    by (simp only: mod_mult_self1)
  moreover have "(1 + e) mod 4 = 0 \<longleftrightarrow> 1 + e = 4"
    using assms by (intro mod_zero_small) auto
  moreover have "1 + e = 4 \<longleftrightarrow> e = 3" by linarith
  ultimately have m4: "?y mod 4 = 0 \<longleftrightarrow> e = 3" by simp
  have "?y = (1 + 4 * c + e) + (16 + 4 * a + b) * 100" by simp
  then have "?y mod 100 = (1 + 4 * c + e) mod 100"
    by (simp only: mod_mult_self1)
  moreover have "(1 + 4 * c + e) mod 100 = 0 \<longleftrightarrow> 1 + 4 * c + e = 100"
    using assms by (intro mod_zero_small) auto
  moreover have "1 + 4 * c + e = 100 \<longleftrightarrow> c = 24 \<and> e = 3" using assms by linarith
  ultimately have m100: "?y mod 100 = 0 \<longleftrightarrow> c = 24 \<and> e = 3" by simp
  have "?y = (1 + 100 * b + 4 * c + e) + (4 + a) * 400" by simp
  then have "?y mod 400 = (1 + 100 * b + 4 * c + e) mod 400"
    by (simp only: mod_mult_self1)
  moreover have "(1 + 100 * b + 4 * c + e) mod 400 = 0 \<longleftrightarrow> 1 + 100 * b + 4 * c + e = 400"
    using assms by (intro mod_zero_small) auto
  moreover have "1 + 100 * b + 4 * c + e = 400 \<longleftrightarrow> b = 3 \<and> c = 24 \<and> e = 3"
    using assms by linarith
  ultimately have m400: "?y mod 400 = 0 \<longleftrightarrow> b = 3 \<and> c = 24 \<and> e = 3" by simp
  show ?thesis unfolding InLeapYear_def m4 m100 m400 by auto
qed

lemma YearFromDay_bounds:
  "DayFromYear (YearFromDay d) \<le> d"
  "d < DayFromYear (YearFromDay d) + (if InLeapYear (YearFromDay d) then 366 else 365)"
  "1601 + 400 * ((d + 134774) div 146097) \<le> YearFromDay d"
  "YearFromDay d \<le> 2000 + 400 * ((d + 134774) div 146097)"
proof -
  define a where "a = (d + 134774) div 146097"
  define r where "r = (d + 134774) mod 146097"
  define b where "b = min (r div 36524) 3"
  define r2 where "r2 = r - b * 36524"
  define c where "c = r2 div 1461"
  define r3 where "r3 = r2 mod 1461"
  define e where "e = min (r3 div 365) 3"
  have y: "YearFromDay d = 1601 + 400 * a + 100 * b + 4 * c + e"
    by (simp add: YearFromDay_def Let_def a_def r_def b_def r2_def c_def r3_def e_def)
  have r: "0 \<le> r" "r < 146097" by (simp_all add: r_def)
  have d: "d + 134774 = 146097 * a + r" by (simp add: a_def r_def)
  note bs = cycle_split[OF r, folded b_def, folded r2_def]
  have cs: "0 \<le> c" "c \<le> 24" using bs(3,4) by (auto simp: c_def)
  have r3: "0 \<le> r3" "r3 < 1461" by (simp_all add: r3_def)
  have r2: "r2 = 1461 * c + r3" by (simp add: c_def r3_def)
  note es = year_split[OF r3, folded e_def]
  have dfy: "DayFromYear (YearFromDay d) = 146097 * a + 36524 * b + 1461 * c + 365 * e - 134774"
    unfolding y using bs(1,2) cs es(1,2) by (rule DayFromYear_cycles)
  have leap: "InLeapYear (YearFromDay d) \<longleftrightarrow> e = 3 \<and> (c \<noteq> 24 \<or> b = 3)"
    unfolding y using bs(1,2) cs es(1,2) by (rule InLeapYear_cycles)
  have doy: "d - DayFromYear (YearFromDay d) = r3 - 365 * e"
    using d r2 dfy by (simp add: r2_def)
  show "DayFromYear (YearFromDay d) \<le> d" using doy es(3) by linarith
  show "d < DayFromYear (YearFromDay d) + (if InLeapYear (YearFromDay d) then 366 else 365)"
  proof (cases "r3 - 365 * e = 365")
    case True
    then have "e = 3" "r3 = 1460" using es(5) by auto
    moreover have "c \<noteq> 24 \<or> b = 3"
    proof (rule ccontr)
      assume "\<not> (c \<noteq> 24 \<or> b = 3)"
      then have "c = 24" "b < 3" using bs(2) by auto
      then show False using bs(5) r2 \<open>r3 = 1460\<close> by simp
    qed
    ultimately show ?thesis using leap doy True by simp
  next
    case False
    then show ?thesis using doy es(4) by (auto split: if_splits)
  qed
  show "1601 + 400 * ((d + 134774) div 146097) \<le> YearFromDay d"
    unfolding y a_def[symmetric] using bs(1) cs(1) es(1) by linarith
  show "YearFromDay d \<le> 2000 + 400 * ((d + 134774) div 146097)"
    unfolding y a_def[symmetric] using bs(2) cs(2) es(2) by linarith
qed

subsection \<open>Date strings\<close>

lemma length_pad [simp]: "length (pad w n) = w"
  by (induction w arbitrary: n) auto

lemma is_digit_char: "(d::nat) < 10 \<Longrightarrow> is_digit (char_of (48 + d))"
  by (simp add: is_digit_def)

lemma digit_val_char: "(d::nat) < 10 \<Longrightarrow> digit_val (char_of (48 + d)) = d"
  by (simp add: digit_val_def)

lemma list_all_digit_pad: "list_all is_digit (pad w n)"
  by (induction w arbitrary: n) (auto simp: is_digit_char)

lemma nat_of_digits_snoc: "nat_of_digits (ds @ [c]) = 10 * nat_of_digits ds + digit_val c"
  by (simp add: nat_of_digits_def)

lemma nat_of_digits_pad: "nat_of_digits (pad w n) = n mod 10 ^ w"
proof (induction w arbitrary: n)
  case 0
  then show ?case by (simp add: nat_of_digits_def)
next
  case (Suc w)
  have "n mod (10 * 10 ^ w) = 10 * (n div 10 mod 10 ^ w) + n mod 10"
    by (simp add: mod_mult2_eq)
  then show ?case
    by (simp add: nat_of_digits_snoc Suc digit_val_char)
qed

lemma digits_val_pad: "n < 10 ^ w \<Longrightarrow> digits_val (pad w n) = Some n"
  by (simp add: digits_val_def list_all_digit_pad nat_of_digits_pad)

lemma is_digit_not_sign: "is_digit c \<Longrightarrow> c \<noteq> CHR ''+'' \<and> c \<noteq> CHR ''-''"
  by (auto simp: is_digit_def)

lemma hd_pad_digit: "0 < w \<Longrightarrow> is_digit (hd (pad w n @ r))"
proof -
  assume "0 < w"
  then have "pad w n \<noteq> []" by (metis length_pad length_0_conv less_numeral_extra(3))
  then have "hd (pad w n @ r) \<in> set (pad w n)" by simp
  then show ?thesis using list_all_digit_pad[of w n] by (simp add: list_all_iff)
qed

lemma parse_year_string:
  assumes "\<bar>y\<bar> < 1000000"
  shows "parse_year (year_string y @ r) = Some (y, r)"
proof (cases "0 \<le> y \<and> y \<le> 9999")
  case True
  then have ys: "year_string y = pad 4 (nat y)" by (simp add: year_string_def)
  have d: "is_digit (hd (pad 4 (nat y) @ r))" by (rule hd_pad_digit) simp
  have v: "digits_val (pad 4 (nat y)) = Some (nat y)"
    using True by (intro digits_val_pad) auto
  show ?thesis
    using True is_digit_not_sign[OF d] by (simp add: ys parse_year_def v)
next
  case False
  then consider "y < 0" | "9999 < y" by linarith
  then show ?thesis
  proof cases
    case 1
    then have ys: "year_string y = CHR ''-'' # pad 6 (nat (- y))"
      by (simp add: year_string_def)
    have v: "digits_val (pad 6 (nat (- y))) = Some (nat (- y))"
      using assms 1 by (intro digits_val_pad) auto
    show ?thesis using 1 by (simp add: ys parse_year_def v)
  next
    case 2
    then have ys: "year_string y = CHR ''+'' # pad 6 (nat y)"
      by (simp add: year_string_def)
    have v: "digits_val (pad 6 (nat y)) = Some (nat y)"
      using assms 2 by (intro digits_val_pad) auto
    show ?thesis using 2 by (simp add: ys parse_year_def v)
  qed
qed

lemma time_of_day_split:
  fixes tod :: int
  assumes "0 \<le> tod" "tod < 86400000"
  shows "tod div 3600000 \<le> 23" "0 \<le> tod div 3600000"
    "tod div 3600000 * 3600000 + tod div 60000 mod 60 * 60000 + tod div 1000 mod 60 * 1000
       + tod mod 1000 = tod"
proof -
  show "tod div 3600000 \<le> 23" "0 \<le> tod div 3600000" using assms by auto
  define q where "q = tod div 1000"
  define ms where "ms = tod mod 1000"
  define h where "h = q div 60 div 60"
  define m where "m = q div 60 mod 60"
  define s where "s = q mod 60"
  have a: "tod = q * 1000 + ms" by (simp add: q_def ms_def)
  have "tod div 60000 = tod div (1000 * 60)" "tod div 3600000 = tod div (1000 * (60 * 60))"
    by simp_all
  then have "tod div 60000 = q div 60" "tod div 3600000 = q div (60 * 60)"
    unfolding q_def by (simp_all only: zdiv_zmult2_eq)
  moreover have "q div (60 * 60) = q div 60 div 60" by (simp only: zdiv_zmult2_eq)
  ultimately have e: "tod div 3600000 = h" "tod div 60000 mod 60 = m"
    by (simp_all add: h_def m_def)
  have b: "q = (h * 60 + m) * 60 + s" by (simp add: h_def m_def s_def)
  have "h * 3600000 + m * 60000 + s * 1000 + ms = tod"
    by (simp add: a b algebra_simps)
  then show "tod div 3600000 * 3600000 + tod div 60000 mod 60 * 60000
      + tod div 1000 mod 60 * 1000 + tod mod 1000 = tod"
    unfolding e by (simp add: q_def s_def ms_def)
qed

lemma month_start_values:
  "month_start leap 0 = 0" "month_start leap 1 = 31" "month_start leap (Suc 0) = 31"
  "month_start leap 2 = (if leap then 60 else 59)" "month_start leap 3 = (if leap then 91 else 90)"
  "month_start leap 4 = (if leap then 121 else 120)" "month_start leap 5 = (if leap then 152 else 151)"
  "month_start leap 6 = (if leap then 182 else 181)" "month_start leap 7 = (if leap then 213 else 212)"
  "month_start leap 8 = (if leap then 244 else 243)" "month_start leap 9 = (if leap then 274 else 273)"
  "month_start leap 10 = (if leap then 305 else 304)" "month_start leap 11 = (if leap then 335 else 334)"
  by (simp_all add: month_start_def)

lemma month_of_day:
  assumes "0 \<le> doy" "doy < (if leap then 366 else 365)"
  shows "MonthFromDay leap doy \<le> 11"
    "month_start leap (MonthFromDay leap doy) \<le> doy"
    "doy - month_start leap (MonthFromDay leap doy) \<le> 30"
proof -
  show "MonthFromDay leap doy \<le> 11" by (simp add: MonthFromDay_def)
  show "month_start leap (MonthFromDay leap doy) \<le> doy"
    using assms(1) unfolding MonthFromDay_def by (cases leap) (simp_all add: month_start_values)
  show "doy - month_start leap (MonthFromDay leap doy) \<le> 30"
    using assms(2) unfolding MonthFromDay_def by (cases leap) (simp_all add: month_start_values)
qed

lemma list_of_length_2: "length xs = 2 \<Longrightarrow> \<exists>a b. xs = [a, b]"
  by (auto simp: numeral_2_eq_2 length_Suc_conv)

lemma list_of_length_3: "length xs = 3 \<Longrightarrow> \<exists>a b c. xs = [a, b, c]"
  by (auto simp: numeral_3_eq_3 length_Suc_conv)

lemma iso_rest_shape:
  assumes "length mo = 2" "length d = 2" "length h = 2" "length mi = 2" "length s = 2"
    "length ms = 3"
  defines "r \<equiv> CHR ''-'' # mo @ CHR ''-'' # d @ CHR ''T'' # h @ CHR '':'' # mi @ CHR '':'' # s
                 @ CHR ''.'' # ms @ ''Z''"
  shows "length r = 20" "r ! 0 = CHR ''-''" "r ! 3 = CHR ''-''" "r ! 6 = CHR ''T''"
    "r ! 9 = CHR '':''" "r ! 12 = CHR '':''" "r ! 15 = CHR ''.''" "r ! 19 = CHR ''Z''"
    "take 2 (drop 1 r) = mo" "take 2 (drop 4 r) = d" "take 2 (drop 7 r) = h"
    "take 2 (drop 10 r) = mi" "take 2 (drop 13 r) = s" "take 3 (drop 16 r) = ms"
proof -
  obtain a1 a2 where mo: "mo = [a1, a2]" using assms(1) list_of_length_2 by blast
  obtain b1 b2 where d: "d = [b1, b2]" using assms(2) list_of_length_2 by blast
  obtain c1 c2 where h: "h = [c1, c2]" using assms(3) list_of_length_2 by blast
  obtain d1 d2 where mi: "mi = [d1, d2]" using assms(4) list_of_length_2 by blast
  obtain e1 e2 where s: "s = [e1, e2]" using assms(5) list_of_length_2 by blast
  obtain f1 f2 f3 where ms: "ms = [f1, f2, f3]" using assms(6) list_of_length_3 by blast
  have r: "r = [CHR ''-'', a1, a2, CHR ''-'', b1, b2, CHR ''T'', c1, c2, CHR '':'', d1, d2,
                CHR '':'', e1, e2, CHR ''.'', f1, f2, f3, CHR ''Z'']"
    by (simp add: r_def mo d h mi s ms)
  show "length r = 20" "r ! 0 = CHR ''-''" "r ! 3 = CHR ''-''" "r ! 6 = CHR ''T''"
    "r ! 9 = CHR '':''" "r ! 12 = CHR '':''" "r ! 15 = CHR ''.''" "r ! 19 = CHR ''Z''"
    "take 2 (drop 1 r) = mo" "take 2 (drop 4 r) = d" "take 2 (drop 7 r) = h"
    "take 2 (drop 10 r) = mi" "take 2 (drop 13 r) = s" "take 3 (drop 16 r) = ms"
    unfolding r mo d h mi s ms by simp_all
qed

lemma Date_parse_formatted:
  assumes "\<bar>y\<bar> < 1000000" and "1 \<le> mo" "mo \<le> 12" and "1 \<le> d" "d \<le> 31" and "h \<le> 23"
    and "mi \<le> 59" and "sec \<le> 59" and "ms \<le> 999"
  shows "Date_parse (year_string y @ ''-'' @ pad 2 mo @ ''-'' @ pad 2 d @ ''T'' @ pad 2 h @ '':''
            @ pad 2 mi @ '':'' @ pad 2 sec @ ''.'' @ pad 3 ms @ ''Z'')
     = TimeClip ((DayFromYear y + month_start (InLeapYear y) (mo - 1) + (int d - 1)) * msPerDay
                  + int h * 3600000 + int mi * 60000 + int sec * 1000 + int ms)"
proof -
  define r where "r = CHR ''-'' # pad 2 mo @ CHR ''-'' # pad 2 d @ CHR ''T'' # pad 2 h @ CHR '':'' # pad 2 mi
                    @ CHR '':'' # pad 2 sec @ CHR ''.'' # pad 3 ms @ ''Z''"
  note sh = iso_rest_shape[of "pad 2 mo" "pad 2 d" "pad 2 h" "pad 2 mi" "pad 2 sec" "pad 3 ms",
      folded r_def, simplified]
  have py: "parse_year (year_string y @ r) = Some (y, r)"
    using assms(1) by (rule parse_year_string)
  have dv: "digits_val (pad 2 mo) = Some mo" "digits_val (pad 2 d) = Some d"
    "digits_val (pad 2 h) = Some h" "digits_val (pad 2 mi) = Some mi"
    "digits_val (pad 2 sec) = Some sec" "digits_val (pad 3 ms) = Some ms"
    using assms by (auto intro!: digits_val_pad)
  have s: "year_string y @ ''-'' @ pad 2 mo @ ''-'' @ pad 2 d @ ''T'' @ pad 2 h @ '':''
            @ pad 2 mi @ '':'' @ pad 2 sec @ ''.'' @ pad 3 ms @ ''Z'' = year_string y @ r"
    by (simp add: r_def)
  show ?thesis
    unfolding s Date_parse_def py using assms(2-) by (simp add: sh dv)
qed

lemma Date_parse_toISOString:
  assumes "\<bar>t\<bar> \<le> maxTime"
  shows "Date_parse (toISOString t) = Some t"
proof -
  define day where "day = t div msPerDay"
  define tod where "tod = t mod msPerDay"
  define y where "y = YearFromDay day"
  define doy where "doy = day - DayFromYear y"
  define m where "m = MonthFromDay (InLeapYear y) doy"
  define dom where "dom = doy - month_start (InLeapYear y) m + 1"
  have t: "t = day * msPerDay + tod" by (simp add: day_def tod_def)
  have tod: "0 \<le> tod" "tod < 86400000" by (simp_all add: tod_def msPerDay_def)
  have day: "- 100000000 \<le> day" "day \<le> 100000000"
    using assms by (auto simp: day_def msPerDay_def maxTime_def)
  then have "- 684 \<le> (day + 134774) div 146097" "(day + 134774) div 146097 \<le> 685" by auto
  then have y: "\<bar>y\<bar> < 1000000"
    using YearFromDay_bounds(3,4)[of day] unfolding y_def by linarith
  have doy: "0 \<le> doy" "doy < (if InLeapYear y then 366 else 365)"
    using YearFromDay_bounds(1,2)[of day] by (auto simp: doy_def y_def)
  note mb = month_of_day[OF doy, folded m_def]
  have dom: "1 \<le> dom" "dom \<le> 31" using mb(2,3) by (simp_all add: dom_def)
  note ts = time_of_day_split[OF tod]
  have b: "1 \<le> Suc m" "Suc m \<le> 12" "1 \<le> nat dom" "nat dom \<le> 31"
    "nat (tod div 3600000) \<le> 23" "nat (tod div 60000 mod 60) \<le> 59"
    "nat (tod div 1000 mod 60) \<le> 59" "nat (tod mod 1000) \<le> 999"
    using mb(1) dom ts(1) by auto
  have iso: "toISOString t = year_string y @ ''-'' @ pad 2 (Suc m) @ ''-'' @ pad 2 (nat dom) @ ''T''
      @ pad 2 (nat (tod div 3600000)) @ '':'' @ pad 2 (nat (tod div 60000 mod 60)) @ '':''
      @ pad 2 (nat (tod div 1000 mod 60)) @ ''.'' @ pad 3 (nat (tod mod 1000)) @ ''Z''"
    by (simp add: toISOString_def Let_def day_def tod_def y_def doy_def m_def dom_def)
  have "(DayFromYear y + month_start (InLeapYear y) (Suc m - 1) + (int (nat dom) - 1)) * msPerDay
          + int (nat (tod div 3600000)) * 3600000 + int (nat (tod div 60000 mod 60)) * 60000
          + int (nat (tod div 1000 mod 60)) * 1000 + int (nat (tod mod 1000))
        = day * msPerDay + (tod div 3600000 * 3600000 + tod div 60000 mod 60 * 60000
            + tod div 1000 mod 60 * 1000 + tod mod 1000)"
    using dom(1) ts(2) tod(1) by (simp add: dom_def doy_def)
  also have "\<dots> = t" unfolding ts(3) t ..
  finally have v: "(DayFromYear y + month_start (InLeapYear y) (Suc m - 1) + (int (nat dom) - 1)) * msPerDay
          + int (nat (tod div 3600000)) * 3600000 + int (nat (tod div 60000 mod 60)) * 60000
          + int (nat (tod div 1000 mod 60)) * 1000 + int (nat (tod mod 1000)) = t" .
  show ?thesis
    unfolding iso Date_parse_formatted[OF y b] v using assms by (simp add: TimeClip_def)
qed

section \<open>The cursor token\<close>

text \<open>
  C5. For every valid time value \<open>t\<close> (a \<open>Date\<close> holds at most \<open>8.64 \<times> 10\<^sup>1\<^sup>5\<close> ms in
  absolute value) and every id \<open>i\<close>, reading the token issued for \<open>(t, i)\<close> gives the date
  \<open>t\<close> and the string \<open>i\<close> back: the token is the base64 text of the JSON array of the ISO
  string of \<open>t\<close> and of \<open>i\<close>, and decoding parses that array and turns its first element
  into a date again.
\<close>

theorem cursor_round_trip:
  assumes "\<bar>t\<bar> \<le> maxTime"
  shows "decodeCursor (encodeCursor t i) = Some (Some t, Some (JString i))"
  unfolding decodeCursor_def encodeCursor_def base64_round_trip JSON_parse_pair
  using Date_parse_toISOString[OF assms] by simp

theorem cursor_round_trip_witness:
  "decodeCursor (encodeCursor 36000000 ''3'') = Some (Some 36000000, Some (JString ''3''))"
  using cursor_round_trip[of 36000000 "''3''"] by (simp add: maxTime_def)

section \<open>Choice of the retrieval path\<close>

text \<open>
  C7. The listing takes its path by the search term alone. Without a search term
  (\<open>undefined\<close> or the empty string, the two falsy values of the option) the request is
  answered by \<open>getPaginatedShopOrdersFromDB\<close>, which receives the shop, the limit, the
  cursor and the status and date filters and no search term. With a search term it is
  answered by the search query and the page built from its rows. No other option enters
  the choice.
\<close>

theorem strategy_chosen_by_search_term:
  "getPaginatedShopOrders db opts =
     (if searchTerm opts = None \<or> searchTerm opts = Some []
      then getPaginatedShopOrdersFromDB db
             (opts\<lparr> limit := Some (page_limit opts), searchTerm := None \<rparr>)
      else (case findMany db (search_query opts) of
              Inl e \<Rightarrow> Inl e
            | Inr rows \<Rightarrow>
                if page_limit opts < int (length rows) then
                  (case js_nth rows (page_limit opts - 1) of
                     None \<Rightarrow> Inl TypeError
                   | Some lastOrder \<Rightarrow>
                       Inr \<lparr> orders = snd (pop rows),
                             nextCursor =
                               Some (encodeCursor (created_at lastOrder) (order_id lastOrder)) \<rparr>)
                else Inr \<lparr> orders = rows, nextCursor = None \<rparr>))"
  by (cases "searchTerm opts") (simp_all add: getPaginatedShopOrders_def truthy_def)

theorem strategy_chosen_by_search_term_witness:
  "getPaginatedShopOrders [order_A, order_B, order_C] (example_request 2 (Some ''9'') (Some []))
     = getPaginatedShopOrdersFromDB [order_A, order_B, order_C] (example_request 2 (Some ''9'') None)"
  using strategy_chosen_by_search_term
          [of "[order_A, order_B, order_C]" "example_request 2 (Some ''9'') (Some [])"]
  by (simp add: example_request_def page_limit_def)

section \<open>Status updates\<close>

text \<open>
  C9. For an order that exists, \<open>updateStatus\<close> succeeds whatever the order's current
  status is. The order it returns is the stored one with the new status, with the delivery
  agent and the delivery time replaced where they are given, and with every other field
  as it was; that order is the one the table now holds under the id. The table keeps its
  length, and every row with another id is unchanged. Nothing compares the new status
  with the old one.
\<close>

theorem updateStatus_overwrites:
  assumes "find (\<lambda>r. order_id r = oid) db = Some r"
  shows "\<exists>r' db'. updateStatus db oid st agent delivered = Inr (r', db')
           \<and> r' = r\<lparr> order_status := st,
                      assigned_to := (case agent of None \<Rightarrow> assigned_to r | Some a \<Rightarrow> Some a),
                      actual_delivery_time :=
                        (case delivered of None \<Rightarrow> actual_delivery_time r | Some t \<Rightarrow> Some t) \<rparr>
           \<and> order_status r' = st \<and> order_id r' = oid
           \<and> find (\<lambda>x. order_id x = oid) db' = Some r'
           \<and> map order_id db' = map order_id db
           \<and> length db' = length db
           \<and> (\<forall>i < length db.
                 db' ! i =
                   (if order_id (db ! i) = oid
                    then (db ! i)\<lparr> order_status := st,
                           assigned_to :=
                             (case agent of None \<Rightarrow> assigned_to (db ! i) | Some a \<Rightarrow> Some a),
                           actual_delivery_time :=
                             (case delivered of None \<Rightarrow> actual_delivery_time (db ! i)
                              | Some t \<Rightarrow> Some t) \<rparr>
                    else db ! i))"
proof -
  define upd where "upd = (\<lambda>r::Order. r\<lparr> order_status := st,
       assigned_to := (case agent of None \<Rightarrow> assigned_to r | Some a \<Rightarrow> Some a),
       actual_delivery_time :=
         (case delivered of None \<Rightarrow> actual_delivery_time r | Some t \<Rightarrow> Some t) \<rparr>)"
  define db' where "db' = map (\<lambda>x. if order_id x = oid then upd x else x) db"
  have id: "\<And>x. order_id (upd x) = order_id x" and st: "\<And>x. order_status (upd x) = st"
    by (simp_all add: upd_def)
  have res: "updateStatus db oid st agent delivered = Inr (upd r, db')"
    using assms by (simp add: updateStatus_def upd_def db'_def)
  have f: "find (\<lambda>x. order_id x = oid) db' = Some (upd r)"
    unfolding db'_def using assms id by (rule find_map_update)
  have m: "map order_id db' = map order_id db"
    by (simp add: db'_def id comp_def if_distrib cong: if_cong)
  have l: "length db' = length db" by (simp add: db'_def)
  have n: "\<forall>i < length db. db' ! i = (if order_id (db ! i) = oid then upd (db ! i) else db ! i)"
    by (simp add: db'_def)
  have "updateStatus db oid st agent delivered = Inr (upd r, db')
           \<and> upd r = upd r
           \<and> order_status (upd r) = st \<and> order_id (upd r) = oid
           \<and> find (\<lambda>x. order_id x = oid) db' = Some (upd r)
           \<and> map order_id db' = map order_id db
           \<and> length db' = length db
           \<and> (\<forall>i < length db. db' ! i = (if order_id (db ! i) = oid then upd (db ! i) else db ! i))"
    using res st id find_order_id[OF assms] f m l n by simp
  then show ?thesis unfolding upd_def by blast
qed

theorem updateStatus_overwrites_witness:
  "\<exists>r' db'. updateStatus [order_A, order_B, order_C] ''2'' CANCELLED (Some ''agent7'') None
        = Inr (r', db')
      \<and> r' = order_B\<lparr> order_status := CANCELLED, assigned_to := Some ''agent7'' \<rparr>
      \<and> order_status r' = CANCELLED \<and> order_id r' = ''2''
      \<and> find (\<lambda>x. order_id x = ''2'') db' = Some r'
      \<and> length db' = 3 \<and> db' ! 0 = order_A \<and> db' ! 1 = r' \<and> db' ! 2 = order_C"
proof -
  have h: "find (\<lambda>r. order_id r = ''2'') [order_A, order_B, order_C] = Some order_B"
    by (simp add: order_A_def order_B_def order_C_def example_order_def)
  obtain r' db' where
    r: "updateStatus [order_A, order_B, order_C] ''2'' CANCELLED (Some ''agent7'') None = Inr (r', db')"
    and u: "r' = order_B\<lparr> order_status := CANCELLED, assigned_to := Some ''agent7'',
                  actual_delivery_time := actual_delivery_time order_B \<rparr>"
    and p: "order_status r' = CANCELLED" "order_id r' = ''2''"
      "find (\<lambda>x. order_id x = ''2'') db' = Some r'"
    and l: "length db' = length [order_A, order_B, order_C]"
    and n: "\<forall>i < length [order_A, order_B, order_C]. db' ! i =
        (if order_id ([order_A, order_B, order_C] ! i) = ''2''
         then ([order_A, order_B, order_C] ! i)\<lparr> order_status := CANCELLED,
                assigned_to := Some ''agent7'',
                actual_delivery_time := actual_delivery_time ([order_A, order_B, order_C] ! i) \<rparr>
         else [order_A, order_B, order_C] ! i)"
    using updateStatus_overwrites[OF h, of CANCELLED "Some ''agent7''" None] by auto
  have u': "r' = order_B\<lparr> order_status := CANCELLED, assigned_to := Some ''agent7'' \<rparr>"
    using u by simp
  have ids: "order_id order_A = ''3''" "order_id order_B = ''2''" "order_id order_C = ''9''"
    by (simp_all add: order_A_def order_B_def order_C_def example_order_def)
  have "db' ! 0 = order_A" using n[rule_format, of 0] ids by simp
  moreover have "db' ! 1 = r'" using n[rule_format, of 1] ids u by simp
  moreover have "db' ! 2 = order_C" using n[rule_format, of 2] ids by simp
  ultimately show ?thesis using r u' p l by simp
qed

text \<open>
  C8. Calling \<open>batchUpdateStatus\<close> twice with the same ids and status. The first call
  keeps every row of the table in its place, sets the status of the rows whose id is in
  the list and changes nothing else; its count is the number of those rows. After the
  second call every order of the table whose id is in the list is still there, with the
  status; both counts are equal and non-negative; and the second call leaves the table
  exactly as the first call left it, so no other field changes.
\<close>

theorem batchUpdateStatus_twice:
  "fst (batchUpdateStatus db ids st) = int (length (filter (\<lambda>r. order_id r \<in> set ids) db))
   \<and> fst (batchUpdateStatus (snd (batchUpdateStatus db ids st)) ids st)
       = fst (batchUpdateStatus db ids st)
   \<and> 0 \<le> fst (batchUpdateStatus db ids st)
   \<and> 0 \<le> fst (batchUpdateStatus (snd (batchUpdateStatus db ids st)) ids st)
   \<and> length (snd (batchUpdateStatus db ids st)) = length db
   \<and> (\<forall>i < length db.
         snd (batchUpdateStatus db ids st) ! i =
           (if order_id (db ! i) \<in> set ids then (db ! i)\<lparr> order_status := st \<rparr> else db ! i))
   \<and> (\<forall>r \<in> set db. order_id r \<in> set ids \<longrightarrow>
         r\<lparr> order_status := st \<rparr>
           \<in> set (snd (batchUpdateStatus (snd (batchUpdateStatus db ids st)) ids st)))
   \<and> (\<forall>r \<in> set (snd (batchUpdateStatus (snd (batchUpdateStatus db ids st)) ids st)).
         order_id r \<in> set ids \<longrightarrow> order_status r = st)
   \<and> snd (batchUpdateStatus (snd (batchUpdateStatus db ids st)) ids st)
       = snd (batchUpdateStatus db ids st)"
proof -
  let ?f = "\<lambda>r. if order_id r \<in> set ids then r\<lparr> order_status := st \<rparr> else r"
  have s1: "snd (batchUpdateStatus db ids st) = map ?f db"
    and c1: "fst (batchUpdateStatus db ids st) = int (length (filter (\<lambda>r. order_id r \<in> set ids) db))"
    by (simp_all add: batchUpdateStatus_def)
  have idem: "map ?f (map ?f db) = map ?f db" by simp
  have fid: "\<And>r. order_id (?f r) = order_id r" by simp
  have s2: "snd (batchUpdateStatus (map ?f db) ids st) = map ?f db"
    by (simp add: batchUpdateStatus_def)
  have "filter (\<lambda>r. order_id r \<in> set ids) (map ?f db)
          = map ?f (filter (\<lambda>r. order_id r \<in> set ids) db)"
    by (induction db) auto
  then have c2: "fst (batchUpdateStatus (map ?f db) ids st)
          = int (length (filter (\<lambda>r. order_id r \<in> set ids) db))"
    by (simp add: batchUpdateStatus_def)
  have mem: "\<forall>r \<in> set db. order_id r \<in> set ids \<longrightarrow> r\<lparr> order_status := st \<rparr> \<in> set (map ?f db)"
    by force
  have stt: "\<forall>r \<in> set (map ?f db). order_id r \<in> set ids \<longrightarrow> order_status r = st"
    by auto
  have nth: "\<forall>i < length db. map ?f db ! i = ?f (db ! i)" by simp
  have len: "length (map ?f db) = length db" by simp
  have nn: "(0::int) \<le> int (length (filter (\<lambda>r. order_id r \<in> set ids) db))" by simp
  show ?thesis
    unfolding s1 s2 c1 c2
    by (intro conjI refl nn len nth mem stt)
qed

theorem batchUpdateStatus_twice_witness:
  "fst (batchUpdateStatus [order_A, order_B, order_C] [''3'', ''9''] CANCELLED) = 2
   \<and> fst (batchUpdateStatus
            (snd (batchUpdateStatus [order_A, order_B, order_C] [''3'', ''9''] CANCELLED))
            [''3'', ''9''] CANCELLED) = 2
   \<and> order_A \<in> set [order_A, order_B, order_C]
   \<and> order_id order_A \<in> set [''3'', ''9'']
   \<and> order_A\<lparr> order_status := CANCELLED \<rparr>
        \<in> set (snd (batchUpdateStatus
                      (snd (batchUpdateStatus [order_A, order_B, order_C] [''3'', ''9''] CANCELLED))
                      [''3'', ''9''] CANCELLED))
   \<and> snd (batchUpdateStatus [order_A, order_B, order_C] [''3'', ''9''] CANCELLED) ! 1 = order_B
   \<and> snd (batchUpdateStatus
            (snd (batchUpdateStatus [order_A, order_B, order_C] [''3'', ''9''] CANCELLED))
            [''3'', ''9''] CANCELLED)
       = snd (batchUpdateStatus [order_A, order_B, order_C] [''3'', ''9''] CANCELLED)"
proof -
  have ids: "order_id order_A = ''3''" "order_id order_B = ''2''" "order_id order_C = ''9''"
    by (simp_all add: order_A_def order_B_def order_C_def example_order_def)
  note t = batchUpdateStatus_twice [of "[order_A, order_B, order_C]" "[''3'', ''9'']" CANCELLED]
  have c: "fst (batchUpdateStatus [order_A, order_B, order_C] [''3'', ''9''] CANCELLED) = 2"
    using t ids by simp
  have b: "snd (batchUpdateStatus [order_A, order_B, order_C] [''3'', ''9''] CANCELLED) ! 1 = order_B"
    using t[THEN conjunct2, THEN conjunct2, THEN conjunct2, THEN conjunct2, THEN conjunct2,
            THEN conjunct1, rule_format, of 1] ids by simp
  have m: "order_A\<lparr> order_status := CANCELLED \<rparr>
        \<in> set (snd (batchUpdateStatus
                      (snd (batchUpdateStatus [order_A, order_B, order_C] [''3'', ''9''] CANCELLED))
                      [''3'', ''9''] CANCELLED))"
    using t[THEN conjunct2, THEN conjunct2, THEN conjunct2, THEN conjunct2, THEN conjunct2,
            THEN conjunct2, THEN conjunct1, rule_format, of order_A] ids by simp
  show ?thesis using t c b m ids by simp
qed

section \<open>The listing without a search term\<close>

text \<open>
  C3, as the code has it. For a limit that is not negative, the path without a search term
  asks the store for \<open>limit + 1\<close> rows starting at the row whose id is the cursor string
  and skipping that row (from the start without a cursor); the cursor is used as it is, as
  a row id. The rows come back with \<open>created_at\<close> descending. When \<open>limit + 1\<close> rows
  come back the page keeps the first \<open>limit\<close> of them and the next cursor is the id of one
  of the rows fetched; otherwise the page is all the rows and there is no next cursor.
\<close>

theorem db_listing_page:
  assumes "0 \<le> page_limit opts"
  shows "\<exists>rows. findMany db (db_query opts) = Inr rows
          \<and> fm_take (db_query opts) = page_limit opts + 1
          \<and> fm_cursor (db_query opts) = (if truthy (cursor opts) then cursor opts else None)
          \<and> fm_skip (db_query opts) = (if truthy (cursor opts) then 1 else 0)
          \<and> sorted_wrt (\<lambda>x y. created_at y \<le> created_at x) rows
          \<and> int (length rows) \<le> page_limit opts + 1
          \<and> (if int (length rows) = page_limit opts + 1
              then \<exists>r \<in> set rows. getPaginatedShopOrdersFromDB db opts =
                     Inr \<lparr> orders = take (nat (page_limit opts)) rows,
                           nextCursor = Some (order_id r) \<rparr>
              else getPaginatedShopOrdersFromDB db opts = Inr \<lparr> orders = rows, nextCursor = None \<rparr>)"
proof -
  have v: "valid_where (fm_where (db_query opts))"
    by (simp add: db_query_def valid_build_where)
  have t: "fm_take (db_query opts) = page_limit opts + 1" 
    and o: "fm_orderBy (db_query opts) = [(by_created_at, desc)]"
    by (simp_all add: db_query_def)
  define sorted_rows where
    "sorted_rows = sort_rows [(by_created_at, desc)] (filter (matches_where (fm_where (db_query opts))) db)"
  define from_cursor where
    "from_cursor = (case fm_cursor (db_query opts) of None \<Rightarrow> sorted_rows
                    | Some c \<Rightarrow> dropWhile (\<lambda>r. order_id r \<noteq> c) sorted_rows)"
  define rows where
    "rows = take (nat \<bar>page_limit opts + 1\<bar>) (drop (fm_skip (db_query opts)) from_cursor)"
  have fm: "findMany db (db_query opts) = Inr rows"
    unfolding rows_def from_cursor_def sorted_rows_def findMany_def
    using v assms by (simp add: t o Let_def)
  have "sorted_wrt (\<lambda>x y. created_at y \<le> created_at x) from_cursor"
    unfolding from_cursor_def sorted_rows_def
    by (simp add: sort_rows_created_at_desc sorted_wrt_dropWhile split: option.splits)
  then have srt: "sorted_wrt (\<lambda>x y. created_at y \<le> created_at x) rows"
    unfolding rows_def by (intro sorted_wrt_take sorted_wrt_drop)
  have len: "int (length rows) \<le> page_limit opts + 1"
    using assms by (simp add: rows_def)
  show ?thesis
  proof (cases "int (length rows) = page_limit opts + 1")
    case True
    then have ne: "rows \<noteq> []" using assms by auto
    have "butlast rows = take (nat (page_limit opts)) rows"
    proof -
      from True have "nat (page_limit opts) = length rows - 1" by linarith
      then show ?thesis by (simp add: butlast_conv_take)
    qed
    then have "getPaginatedShopOrdersFromDB db opts =
       Inr \<lparr> orders = take (nat (page_limit opts)) rows, nextCursor = Some (order_id (last rows)) \<rparr>"
      using True ne by (simp add: getPaginatedShopOrdersFromDB_def fm pop_def)
    moreover have "last rows \<in> set rows" using ne by simp
    ultimately show ?thesis using fm len srt True by (auto simp: db_query_def)
  next
    case False
    then have "getPaginatedShopOrdersFromDB db opts = Inr \<lparr> orders = rows, nextCursor = None \<rparr>"
      using len by (simp add: getPaginatedShopOrdersFromDB_def fm)
    then show ?thesis using fm len srt False by (auto simp: db_query_def)
  qed
qed

theorem db_listing_page_witness:
  "\<exists>rows. findMany [order_A, order_B, order_C] (db_query (example_request 2 None None)) = Inr rows
      \<and> fm_take (db_query (example_request 2 None None)) = page_limit (example_request 2 None None) + 1
      \<and> sorted_wrt (\<lambda>x y. created_at y \<le> created_at x) rows
      \<and> int (length rows) \<le> page_limit (example_request 2 None None) + 1"
proof -
  have h: "0 \<le> page_limit (example_request 2 None None)"
    by (simp add: page_limit_def example_request_def)
  show ?thesis
    using db_listing_page[OF h, of "[order_A, order_B, order_C]"] by blast
qed

text \<open>
  C3 as the claim states it fails on the example: with page size 2 the cursor issued after
  \<open>[order_A, order_B]\<close> is the plain id of \<open>order_C\<close>, not a token encoding the
  \<open>(created_at, id)\<close> pair of the last row returned.
\<close>

theorem db_listing_cursor_counterexample:
  "getPaginatedShopOrdersFromDB [order_A, order_B, order_C] (example_request 2 None None)
     = Inr \<lparr> orders = [order_A, order_B], nextCursor = Some ''9'' \<rparr>
   \<and> Some ''9'' \<noteq> Some (encodeCursor (created_at order_B) (order_id order_B))"
  unfolding order_A_def order_B_def order_C_def example_order_def example_request_def
  by code_simp

section \<open>Cursors that cannot be read\<close>

text \<open>
  C4, as the code has it. On the search path a cursor whose base64-decoded text is not
  JSON, or is the JSON value \<open>null\<close>, is ignored: the result is the one of the same request
  without a cursor.
\<close>

theorem undecodable_search_cursor_ignored:
  assumes "truthy (searchTerm opts)" and "decodeCursor c = None"
  shows "getPaginatedShopOrders db (opts\<lparr> cursor := Some c \<rparr>)
           = getPaginatedShopOrders db (opts\<lparr> cursor := None \<rparr>)"
proof -
  have "cursorCondition (Some c) = cursorCondition None"
    using assms(2) by (simp add: cursorCondition_def)
  then have q: "search_query (opts\<lparr> cursor := Some c \<rparr>) = search_query (opts\<lparr> cursor := None \<rparr>)"
    by (simp add: search_query_def build_where_def page_limit_def)
  have l: "page_limit (opts\<lparr> cursor := Some c \<rparr>) = page_limit (opts\<lparr> cursor := None \<rparr>)"
    by (simp add: page_limit_def)
  show ?thesis
    unfolding getPaginatedShopOrders_def q l using assms(1) by simp
qed

theorem undecodable_search_cursor_ignored_witness:
  "getPaginatedShopOrders [order_A, order_B, order_C]
      ((example_request 2 None (Some ''ord''))\<lparr> cursor := Some ''!!!'' \<rparr>)
   = getPaginatedShopOrders [order_A, order_B, order_C]
      ((example_request 2 None (Some ''ord''))\<lparr> cursor := None \<rparr>)"
proof -
  have h1: "truthy (searchTerm (example_request 2 None (Some ''ord'')))"
    by (simp add: truthy_def example_request_def)
  have h2: "decodeCursor ''!!!'' = None"
    by code_simp
  show ?thesis by (rule undecodable_search_cursor_ignored[OF h1 h2])
qed

text \<open>
  C4 as the claim states it fails without a search term: that path hands the cursor string
  to the store as a row id. A string that is the id of no order gives an empty page, where
  the request without a cursor gives the first page.
\<close>

theorem malformed_cursor_counterexample:
  "getPaginatedShopOrders [order_A, order_B, order_C] (example_request 2 (Some ''!!!'') None)
     = Inr \<lparr> orders = [], nextCursor = None \<rparr>
   \<and> getPaginatedShopOrders [order_A, order_B, order_C] (example_request 2 None None)
     = Inr \<lparr> orders = [order_A, order_B], nextCursor = Some ''9'' \<rparr>
   \<and> getPaginatedShopOrders [order_A, order_B, order_C] (example_request 2 (Some ''!!!'') None)
     \<noteq> getPaginatedShopOrders [order_A, order_B, order_C] (example_request 2 None None)"
  unfolding order_A_def order_B_def order_C_def example_order_def example_request_def
  by code_simp

section \<open>The search path with a page size of zero\<close>




section \<open>Walking the pages\<close>

text \<open>
  C1 on the example of the specification, page size 2, no search term. The first page is
  \<open>[order_A, order_B]\<close> and its cursor is the id of \<open>order_C\<close>, the row that was fetched
  to see whether more rows follow. The next request starts after that row, returns an
  empty page and no cursor: \<open>order_C\<close> matches the filter and is never listed.
\<close>

theorem db_listing_skips_cut_off_row:
  "getPaginatedShopOrders [order_A, order_B, order_C] (example_request 2 None None)
     = Inr \<lparr> orders = [order_A, order_B], nextCursor = Some ''9'' \<rparr>
   \<and> getPaginatedShopOrders [order_A, order_B, order_C] (example_request 2 (Some ''9'') None)
     = Inr \<lparr> orders = [], nextCursor = None \<rparr>
   \<and> matches_where (build_where (example_request 2 None None)) order_C"
  unfolding order_A_def order_B_def order_C_def example_order_def example_request_def
  by code_simp

text \<open>
  C2 on a table that holds \<open>order_B\<close> before \<open>order_A\<close>, both created at the same
  instant. Without a search term the rows are ordered by \<open>created_at\<close> only, so the page is
  \<open>[order_B, order_A]\<close>: the first of two consecutive orders has the smaller id.
\<close>

theorem db_listing_ties_in_table_order:
  "getPaginatedShopOrders [order_B, order_A, order_C] (example_request 2 None None)
     = Inr \<lparr> orders = [order_B, order_A], nextCursor = Some ''9'' \<rparr>
   \<and> created_at order_B = created_at order_A \<and> order_id order_B < order_id order_A"
  unfolding order_A_def order_B_def order_C_def example_order_def example_request_def
  by code_simp

text \<open>
  C6 on the example, searching for \<open>ord-a\<close> with page size 1 and the cursor of \<open>order_A\<close>
  (a token that decodes to its timestamp and id). The range condition of the cursor takes
  the place of the text condition under the same key \<open>OR\<close>: the page is \<open>[order_B]\<close>,
  an order that matches the search term in none of the three fields.
\<close>

theorem search_cursor_drops_text_filter:
  "getPaginatedShopOrders [order_A, order_B, order_C]
      (example_request 1 (Some (encodeCursor (created_at order_A) (order_id order_A)))
         (Some ''ord-a''))
     = Inr \<lparr> orders = [order_B],
             nextCursor = Some (encodeCursor (created_at order_B) (order_id order_B)) \<rparr>
   \<and> decodeCursor (encodeCursor (created_at order_A) (order_id order_A))
       = Some (Some (created_at order_A), Some (JString (order_id order_A)))
   \<and> \<not> list_ex (matches_clause order_B) (search_clauses ''ord-a'')"
  unfolding order_A_def order_B_def order_C_def example_order_def example_request_def
  by code_simp

end
